theory Spec2Isabelle
  imports Main "HOL-Library.Code_Target_Nat"
begin

section \<open>Bytes and the Python string operations the program uses\<close>

text \<open>
  A Python \<open>bytes\<close> value is a list of 8-bit characters. Text that the program
  obtains by \<open>decode('utf-8')\<close> is kept as the same list: its UTF-8 encoding.
\<close>

type_synonym bytes = string

definition CRLF :: bytes where
  "CRLF = [CHR 0x0D, CHR 0x0A]"

definition CRLFCRLF :: bytes where
  "CRLFCRLF = CRLF @ CRLF"

text \<open>\<open>s.startswith(p)\<close>.\<close>

definition startswith :: "string \<Rightarrow> string \<Rightarrow> bool" where
  "startswith s p = (take (length p) s = p)"

text \<open>
  \<open>data.split(sep, 1)\<close> for a non-empty separator: the part before the first
  occurrence of \<open>sep\<close> and the part after it; \<open>None\<close> when \<open>sep\<close> does not occur
  (Python then returns the one-element list \<open>[data]\<close>).
\<close>

fun split_first :: "bytes \<Rightarrow> bytes \<Rightarrow> (bytes \<times> bytes) option" where
  "split_first sep [] = None"
| "split_first sep (c # cs) =
     (if startswith (c # cs) sep then Some ([], drop (length sep) (c # cs))
      else (case split_first sep cs of
              None \<Rightarrow> None
            | Some (h, r) \<Rightarrow> Some (c # h, r)))"

text \<open>\<open>sep in data\<close>.\<close>

definition contains :: "bytes \<Rightarrow> bytes \<Rightarrow> bool" where
  "contains sep data = (split_first sep data \<noteq> None)"

text \<open>
  The bytes that \<open>bytes.split()\<close> without arguments treats as whitespace:
  space, tab, line feed, carriage return, vertical tab, form feed.
\<close>

definition is_space :: "char \<Rightarrow> bool" where
  "is_space c = (c = CHR 0x20 \<or> c = CHR 0x09 \<or> c = CHR 0x0A \<or> c = CHR 0x0D
                 \<or> c = CHR 0x0B \<or> c = CHR 0x0C)"

text \<open>
  \<open>headers.split()\<close>: the maximal runs of non-whitespace bytes, in order.
  \<open>split_ws cur s\<close> scans \<open>s\<close> with the token \<open>cur\<close> under construction.
\<close>

fun split_ws :: "bytes \<Rightarrow> bytes \<Rightarrow> bytes list" where
  "split_ws cur [] = (if cur = [] then [] else [cur])"
| "split_ws cur (c # cs) =
     (if is_space c then (if cur = [] then split_ws [] cs else cur # split_ws [] cs)
      else split_ws (cur @ [c]) cs)"

definition py_split :: "bytes \<Rightarrow> bytes list" where
  "py_split s = split_ws [] s"

text \<open>\<open>"%d" % n\<close> for a non-negative integer.\<close>

definition digit_char :: "nat \<Rightarrow> char" where
  "digit_char d = char_of (48 + d)"

function str_of_nat :: "nat \<Rightarrow> string" where
  "str_of_nat n = (if n < 10 then [digit_char n]
                   else str_of_nat (n div 10) @ [digit_char (n mod 10)])"
  by pat_completeness auto
termination
  by (relation "measure id") auto

text \<open>
  Whether \<open>b.decode('utf-8')\<close> (strict error handling) succeeds: the well-formed
  byte sequences of UTF-8 (no overlong forms, no surrogates, nothing above U+10FFFF).
\<close>

definition cont_byte :: "char \<Rightarrow> bool" where
  "cont_byte c = (0x80 \<le> (of_char c :: nat) \<and> (of_char c :: nat) \<le> 0xBF)"

definition in_range :: "nat \<Rightarrow> nat \<Rightarrow> char \<Rightarrow> bool" where
  "in_range lo hi c = (lo \<le> (of_char c :: nat) \<and> (of_char c :: nat) \<le> hi)"

fun utf8_valid :: "bytes \<Rightarrow> bool" where
  "utf8_valid [] = True"
| "utf8_valid [a] = in_range 0 0x7F a"
| "utf8_valid [a, b] =
     (if in_range 0 0x7F a then utf8_valid [b]
      else in_range 0xC2 0xDF a \<and> cont_byte b)"
| "utf8_valid [a, b, c] =
     (if in_range 0 0x7F a then utf8_valid [b, c]
      else if in_range 0xC2 0xDF a then cont_byte b \<and> utf8_valid [c]
      else (in_range 0xE0 0xE0 a \<and> in_range 0xA0 0xBF b \<and> cont_byte c)
         \<or> (in_range 0xE1 0xEC a \<and> cont_byte b \<and> cont_byte c)
         \<or> (in_range 0xED 0xED a \<and> in_range 0x80 0x9F b \<and> cont_byte c)
         \<or> (in_range 0xEE 0xEF a \<and> cont_byte b \<and> cont_byte c))"
| "utf8_valid (a # b # c # d # r) =
     (if in_range 0 0x7F a then utf8_valid (b # c # d # r)
      else if in_range 0xC2 0xDF a then cont_byte b \<and> utf8_valid (c # d # r)
      else if in_range 0xE0 0xE0 a then in_range 0xA0 0xBF b \<and> cont_byte c \<and> utf8_valid (d # r)
      else if in_range 0xE1 0xEC a then cont_byte b \<and> cont_byte c \<and> utf8_valid (d # r)
      else if in_range 0xED 0xED a then in_range 0x80 0x9F b \<and> cont_byte c \<and> utf8_valid (d # r)
      else if in_range 0xEE 0xEF a then cont_byte b \<and> cont_byte c \<and> utf8_valid (d # r)
      else if in_range 0xF0 0xF0 a then in_range 0x90 0xBF b \<and> cont_byte c \<and> cont_byte d \<and> utf8_valid r
      else if in_range 0xF1 0xF3 a then cont_byte b \<and> cont_byte c \<and> cont_byte d \<and> utf8_valid r
      else if in_range 0xF4 0xF4 a then in_range 0x80 0x8F b \<and> cont_byte c \<and> cont_byte d \<and> utf8_valid r
      else False)"


text \<open>
  \<open>header.split(": ")\<close>: the pieces of \<open>header\<close> between the occurrences of a colon
  followed by a space; \<open>cur\<close> is the piece under construction.
\<close>

fun split_colon_space :: "string \<Rightarrow> string \<Rightarrow> string list" where
  "split_colon_space cur [] = [cur]"
| "split_colon_space cur [c] = [cur @ [c]]"
| "split_colon_space cur (c # d # cs) =
     (if c = CHR '':'' \<and> d = CHR '' '' then cur # split_colon_space [] cs
      else split_colon_space (cur @ [c]) (d # cs))"

section \<open>Exceptions, events and the record of what the program does\<close>

text \<open>
  The exceptions that can leave a function of the program. \<open>SystemExit n\<close> is
  \<open>sys.exit(n)\<close>; it is not an \<open>Exception\<close> in Python's hierarchy, all others are.
  \<open>ConnectError\<close> and \<open>ProtocolError\<close> stand for what \<open>socket.connect\<close> and the
  HTTP/2 library raise.
\<close>

datatype py_error =
    SocketTimeout
  | IndexError
  | ValueError
  | TypeError
  | AttributeError
  | UnicodeDecodeError
  | UnicodeEncodeError
  | RuntimeError string
  | NameError string
  | SystemExit nat
  | ConnectError
  | ProtocolError
  | NoAvailableStreamIDError

definition is_Exception :: "py_error \<Rightarrow> bool" where
  "is_Exception e = (case e of SystemExit _ \<Rightarrow> False | _ \<Rightarrow> True)"

text \<open>
  \<open>s.encode('utf-8')\<close>. The strings the program encodes are parts of a command-line
  argument, which Python decodes from the bytes of \<open>argv\<close> as UTF-8 with the
  \<open>surrogateescape\<close> handler; such a string is represented here by these bytes. A
  byte that is not part of well-formed UTF-8 has become a lone surrogate, on which
  the strict encoder raises; otherwise encoding gives the bytes back.
\<close>

definition encode_utf8 :: "string \<Rightarrow> py_error + bytes" where
  "encode_utf8 s = (if utf8_valid s then Inr s else Inl UnicodeEncodeError)"

text \<open>
  The events of \<open>h2.events\<close> that \<open>handle_events\<close> tells apart, with the fields it
  reads; every other event class is \<open>OtherEvent\<close>, carrying its \<open>str()\<close>.
\<close>

datatype event =
    ResponseReceived nat "(bytes \<times> bytes) list"
  | DataReceived nat bytes
  | StreamReset nat nat
  | StreamEnded nat
  | OtherEvent string

text \<open>The frames the program asks the HTTP/2 library to produce.\<close>

datatype h2_frame =
    ClientPreface
  | HeadersFrame nat "string option list list" bool
  | GoAwayFrame

text \<open>
  Every action of the program on the outside world, in the order it happens:
  socket calls, calls of the decoder (\<open>receive_data\<close>, with the bytes passed)
  and lines printed. \<open>PrintData d\<close> is the line
  \<open>d.decode('utf-8', 'replace')\<close>, \<open>PrintInfo e\<close> the line \<open>"[INFO] " + str(e)\<close>,
  \<open>PrintErr\<close> a line on stderr, \<open>PrintExc e s\<close> the stderr line
  \<open>"[ERROR] " + str(e) + ": " + s\<close>.
\<close>

datatype io =
    Connect "string option" nat
  | Recv "py_error + bytes"
  | SendRaw bytes
  | SendFrames "h2_frame list"
  | Feed bytes
  | Shutdown
  | Close
  | Print string
  | PrintData bytes
  | PrintInfo event
  | PrintErr string
  | PrintExc py_error string

text \<open>
  What the peer does: the outcomes of the successive \<open>recv\<close> calls, and what every
  \<open>recv\<close> does once these are used up: a silent peer lets each one run into the
  socket timeout, a peer that has closed the connection makes each one return \<open>b''\<close>.
\<close>

datatype recv_outcome = Chunk bytes | TimesOut

datatype peer_end = Silent | Closed

text \<open>
  The state the program works on. \<open>incoming\<close>, \<open>peer_end\<close> and \<open>connect_failure\<close>
  describe the socket \<open>connection\<close> and its peer; \<open>highest_outbound_stream_id\<close> and
  \<open>outbound\<close> are the state of \<open>h2_connection\<close>; \<open>trace\<close> is the record of actions.
\<close>

record world =
  incoming :: "recv_outcome list"
  peer_end :: peer_end
  connect_failure :: "py_error option"
  highest_outbound_stream_id :: nat
  outbound :: "h2_frame list"
  trace :: "io list"

definition emit :: "io \<Rightarrow> world \<Rightarrow> world" where
  "emit x w = w\<lparr>trace := trace w @ [x]\<rparr>"

text \<open>The result of \<open>urlparse\<close>, with the attributes the program reads.\<close>

record url =
  scheme :: string
  hostname :: "string option"
  port :: "nat option"
  path :: string
  query :: string
  geturl :: string

text \<open>
  The parsed command line, \<open>arg_x\<close> for \<open>args.x\<close>. \<open>arg_proxy_url\<close> is
  \<open>urlparse(args.proxy)\<close>; \<open>arg_urls\<close> is the list
  \<open>urls\<close> that lines 162 to 167 of \<open>main\<close> build from \<open>args.wordlist\<close> and \<open>args.url\<close>,
  or the exception raised while reading the word list.
\<close>

record args =
  arg_proxy :: string
  arg_proxy_url :: url
  arg_test :: bool
  arg_verbose :: bool
  arg_data :: "string option"
  arg_request :: string
  arg_header :: "string list option"
  arg_urls :: "py_error + url list"

section \<open>The socket\<close>

text \<open>\<open>connection.recv(8192)\<close>.\<close>

definition recv :: "world \<Rightarrow> (py_error + bytes) \<times> world" where
  "recv w =
     (case incoming w of
        [] \<Rightarrow> (case peer_end w of
                 Silent \<Rightarrow> (Inl SocketTimeout, emit (Recv (Inl SocketTimeout)) w)
               | Closed \<Rightarrow> (Inr [], emit (Recv (Inr [])) w))
      | Chunk d # rest \<Rightarrow> (Inr d, emit (Recv (Inr d)) (w\<lparr>incoming := rest\<rparr>))
      | TimesOut # rest \<Rightarrow>
          (Inl SocketTimeout, emit (Recv (Inl SocketTimeout)) (w\<lparr>incoming := rest\<rparr>)))"

definition establish_tcp_connection :: "url \<Rightarrow> world \<Rightarrow> (py_error + unit) \<times> world" where
  "establish_tcp_connection proxy_url w =
     (let p = (case port proxy_url of
                 None \<Rightarrow> (if scheme proxy_url = ''http'' then 80 else 443)
               | Some n \<Rightarrow> (if n = 0 then (if scheme proxy_url = ''http'' then 80 else 443)
                            else n));
          w' = emit (Connect (hostname proxy_url) p) w
      in case connect_failure w of
           Some e \<Rightarrow> (Inl e, w')
         | None \<Rightarrow> (Inr (), w'))"

section \<open>The upgrade request\<close>

definition HTTP2_SETTINGS :: bytes where
  "HTTP2_SETTINGS = ''AAMAAABkAARAAAAAAAIAAAAA''"

definition send_initial_request ::
  "bool \<Rightarrow> url \<Rightarrow> bytes \<Rightarrow> world \<Rightarrow> (py_error + unit) \<times> world" where
  "send_initial_request UPGRADE_ONLY proxy_url settings w =
     (let path' = (if path proxy_url = [] then ''/'' else path proxy_url);
          addl_conn_str = (if UPGRADE_ONLY then [] else '', HTTP2-Settings'')
      in case encode_utf8 path' of
           Inl e \<Rightarrow> (Inl e, w)
         | Inr path_bytes \<Rightarrow>
             (case hostname proxy_url of
                None \<Rightarrow> (Inl AttributeError, w)
              | Some host \<Rightarrow>
                  (case encode_utf8 host of
                     Inl e \<Rightarrow> (Inl e, w)
                   | Inr host_bytes \<Rightarrow>
                       (Inr (),
                        emit (SendRaw
                          (''GET '' @ path_bytes @ '' HTTP/1.1'' @ CRLF @
                           ''Host: '' @ host_bytes @ CRLF @
                           ''Accept: */*'' @ CRLF @
                           ''Accept-Language: en'' @ CRLF @
                           ''Upgrade: h2c'' @ CRLF @
                           ''HTTP2-Settings: '' @ HTTP2_SETTINGS @ CRLF @
                           ''Connection: Upgrade'' @ addl_conn_str @ CRLF @
                           CRLF)) w))))"


section \<open>The upgrade response\<close>

text \<open>
  The \<open>while\<close> loop of \<open>get_upgrade_response\<close> (lines 80 to 82), with \<open>data\<close> the
  bytes accumulated so far. The loop has no bound of its own: \<open>None\<close> is the run
  that never leaves it.
\<close>

partial_function (option) get_upgrade_response_loop ::
  "bytes \<Rightarrow> world \<Rightarrow> ((py_error + bytes) \<times> world) option" where
  "get_upgrade_response_loop data w =
     (if contains CRLFCRLF data then Some (Inr data, w)
      else (case recv w of
              (Inl e, w') \<Rightarrow> Some (Inl e, w')
            | (Inr d, w') \<Rightarrow> get_upgrade_response_loop (data @ d) w'))"

declare get_upgrade_response_loop.simps [code]

text \<open>
  Lines 84 to 91, on the accumulated bytes. The result is the pair the function
  returns, \<open>(rest, True)\<close> or \<open>(None, False)\<close>.
\<close>

definition read_upgrade_response ::
  "url \<Rightarrow> bytes \<Rightarrow> world \<Rightarrow> (py_error + bytes option \<times> bool) \<times> world" where
  "read_upgrade_response proxy_url data w =
     (case split_first CRLFCRLF data of
        None \<Rightarrow> (Inl ValueError, w)
      | Some (headers, rest) \<Rightarrow>
          (case py_split headers of
             _ # code # _ \<Rightarrow>
               (if code \<noteq> ''101''
                then (Inr (None, False),
                      emit (Print (''[INFO] Failed to upgrade: '' @ geturl proxy_url)) w)
                else (Inr (Some rest, True), w))
           | _ \<Rightarrow> (Inl IndexError, w)))"

definition get_upgrade_response ::
  "url \<Rightarrow> world \<Rightarrow> ((py_error + bytes option \<times> bool) \<times> world) option" where
  "get_upgrade_response proxy_url w =
     (case get_upgrade_response_loop [] w of
        None \<Rightarrow> None
      | Some (Inl e, w') \<Rightarrow> Some (Inl e, w')
      | Some (Inr data, w') \<Rightarrow> Some (read_upgrade_response proxy_url data w'))"

section \<open>The HTTP/2 connection object\<close>

text \<open>
  The decoder of the HTTP/2 library is not part of the program; it is a parameter.
  It is deterministic, so what \<open>receive_data\<close> returns is a function of everything
  that happened before (the trace) and of the bytes passed: the events decoded, or
  \<open>None\<close> when the library raises its \<open>ProtocolError\<close>.
\<close>

type_synonym decoder = "io list \<Rightarrow> bytes \<Rightarrow> event list option"

definition receive_data :: "decoder \<Rightarrow> bytes \<Rightarrow> world \<Rightarrow> (py_error + event list) \<times> world" where
  "receive_data dec d w =
     (case dec (trace w) d of
        None \<Rightarrow> (Inl ProtocolError, emit (Feed d) w)
      | Some events \<Rightarrow> (Inr events, emit (Feed d) w))"

text \<open>
  Modelled from the spec: the stream bookkeeping of the library's \<open>H2Connection\<close>,
  which is not under src/. The session holds the next-available stream ID counter
  (monotonically increasing, odd, client-initiated); opening a stream takes the next
  odd ID and encodes a HEADERS frame; the produced bytes are drained by the caller.
  The connection starts after the upgrade: the upgrade request itself is stream 1.
  \<open>get_next_available_stream_id\<close> fails when the 31-bit ID space is used up.
\<close>

definition H2Connection :: "world \<Rightarrow> world" where
  "H2Connection w = w\<lparr>highest_outbound_stream_id := 0, outbound := []\<rparr>"

definition initiate_upgrade_connection :: "world \<Rightarrow> bytes \<times> world" where
  "initiate_upgrade_connection w =
     ([], w\<lparr>highest_outbound_stream_id := 1, outbound := outbound w @ [ClientPreface]\<rparr>)"

definition get_next_available_stream_id :: "world \<Rightarrow> py_error + nat" where
  "get_next_available_stream_id w =
     (let next_id = (if highest_outbound_stream_id w = 0 then 1
                     else highest_outbound_stream_id w + 2)
      in if next_id > 2 ^ 31 - 1 then Inl NoAvailableStreamIDError else Inr next_id)"

definition send_headers :: "nat \<Rightarrow> string option list list \<Rightarrow> bool \<Rightarrow> world \<Rightarrow> world" where
  "send_headers stream_id headers end_stream w =
     w\<lparr>highest_outbound_stream_id := max (highest_outbound_stream_id w) stream_id,
       outbound := outbound w @ [HeadersFrame stream_id headers end_stream]\<rparr>"

definition close_connection :: "world \<Rightarrow> world" where
  "close_connection w = w\<lparr>outbound := outbound w @ [GoAwayFrame]\<rparr>"

text \<open>\<open>connection.sendall(h2_connection.data_to_send())\<close>: the buffer is sent and emptied.\<close>

definition sendall_data_to_send :: "world \<Rightarrow> world" where
  "sendall_data_to_send w = emit (SendFrames (outbound w)) (w\<lparr>outbound := []\<rparr>)"

section \<open>Draining and reporting events\<close>

definition is_StreamEnded :: "event \<Rightarrow> bool" where
  "is_StreamEnded e = (case e of StreamEnded _ \<Rightarrow> True | _ \<Rightarrow> False)"

text \<open>\<open>len(events) > 0 and isinstance(events[-1], StreamEnded)\<close>.\<close>

definition ends_with_StreamEnded :: "event list \<Rightarrow> bool" where
  "ends_with_StreamEnded events = (events \<noteq> [] \<and> is_StreamEnded (last events))"

text \<open>
  The loop of \<open>getData\<close> (lines 97 to 101) with its handler (lines 102 to 105):
  \<open>socket.timeout\<close>, raised by \<open>recv\<close> or by line 101, ends the loop and the events
  are returned; any other exception leaves the function.
\<close>

partial_function (option) getData_loop ::
  "decoder \<Rightarrow> event list \<Rightarrow> world \<Rightarrow> ((py_error + event list) \<times> world) option" where
  "getData_loop dec events w =
     (case recv w of
        (Inl e, w') \<Rightarrow>
          (if e = SocketTimeout then Some (Inr events, w') else Some (Inl e, w'))
      | (Inr newdata, w') \<Rightarrow>
          (case receive_data dec newdata w' of
             (Inl e, w'') \<Rightarrow>
               (if e = SocketTimeout then Some (Inr events, w'') else Some (Inl e, w''))
           | (Inr new_events, w'') \<Rightarrow>
               (if ends_with_StreamEnded (events @ new_events)
                then Some (Inr (events @ new_events), w'')
                else getData_loop dec (events @ new_events) w'')))"

declare getData_loop.simps [code]

definition getData :: "decoder \<Rightarrow> world \<Rightarrow> ((py_error + event list) \<times> world) option" where
  "getData dec w = getData_loop dec [] w"

fun print_headers :: "(bytes \<times> bytes) list \<Rightarrow> world \<Rightarrow> (py_error + unit) \<times> world" where
  "print_headers [] w = (Inr (), w)"
| "print_headers ((name, value) # hs) w =
     (if utf8_valid name \<and> utf8_valid value
      then print_headers hs (emit (Print (name @ '': '' @ value)) w)
      else (Inl UnicodeDecodeError, w))"

definition handle_response ::
  "(bytes \<times> bytes) list \<Rightarrow> nat \<Rightarrow> world \<Rightarrow> (py_error + unit) \<times> world" where
  "handle_response response_headers stream_id w =
     (case print_headers response_headers w of
        (Inl e, w') \<Rightarrow> (Inl e, w')
      | (Inr _, w') \<Rightarrow> (Inr (), emit (Print []) w'))"

fun handle_events :: "event list \<Rightarrow> bool \<Rightarrow> world \<Rightarrow> (py_error + unit) \<times> world" where
  "handle_events [] isVerbose w = (Inr (), w)"
| "handle_events (ResponseReceived stream_id headers # events) isVerbose w =
     (case handle_response headers stream_id w of
        (Inl e, w') \<Rightarrow> (Inl e, w')
      | (Inr _, w') \<Rightarrow> handle_events events isVerbose w')"
| "handle_events (DataReceived stream_id d # events) isVerbose w =
     handle_events events isVerbose (emit (Print []) (emit (PrintData d) w))"
| "handle_events (StreamReset stream_id error_code # events) isVerbose w =
     (Inl (RuntimeError (''stream reset: '' @ str_of_nat error_code)), w)"
| "handle_events (event # events) isVerbose w =
     handle_events events isVerbose (if isVerbose then emit (PrintInfo event) w else w)"


section \<open>Smuggled requests\<close>

text \<open>
  \<open>sendSmuggledRequest\<close>. The function \<open>sendData\<close> that line 119 calls is defined
  nowhere in the program, so a request with a non-empty body stops there with a
  \<open>NameError\<close>, after the headers have been sent.
\<close>

definition sendSmuggledRequest ::
  "decoder \<Rightarrow> string option list list \<Rightarrow> args \<Rightarrow> world \<Rightarrow> ((py_error + unit) \<times> world) option" where
  "sendSmuggledRequest dec smuggled_request_headers a w =
     (case get_next_available_stream_id w of
        Inl e \<Rightarrow> Some (Inl e, w)
      | Inr stream_id \<Rightarrow>
          (let w1 = send_headers stream_id smuggled_request_headers (arg_data a = None) w;
               w2 = sendall_data_to_send w1
           in if arg_data a \<noteq> None \<and> arg_data a \<noteq> Some []
              then Some (Inl (NameError ''sendData''), w2)
              else (case getData dec w2 of
                      None \<Rightarrow> None
                    | Some (Inl e, w3) \<Rightarrow> Some (Inl e, w3)
                    | Some (Inr events, w3) \<Rightarrow> Some (handle_events events (arg_verbose a) w3))))"

text \<open>Lines 170 to 185: the header list of the request for one URL.\<close>

definition smuggled_request_headers_of :: "args \<Rightarrow> url \<Rightarrow> string \<Rightarrow> string option list list" where
  "smuggled_request_headers_of a u path' =
     [[Some '':method'', Some (arg_request a)],
      [Some '':authority'', hostname u],
      [Some '':scheme'', Some (scheme u)],
      [Some '':path'', Some path']]
     @ (case arg_header a of
          None \<Rightarrow> []
        | Some hs \<Rightarrow> map (\<lambda>h. map Some (split_colon_space [] h)) hs)"

definition request_path :: "url \<Rightarrow> string" where
  "request_path u =
     (let path' = (if path u = [] then ''/'' else path u)
      in if query u \<noteq> [] then path' @ ''?'' @ query u else path')"

text \<open>The \<open>for url in urls\<close> loop of \<open>main\<close> (lines 169 to 191).\<close>

fun main_requests ::
  "decoder \<Rightarrow> args \<Rightarrow> url list \<Rightarrow> world \<Rightarrow> ((py_error + unit) \<times> world) option" where
  "main_requests dec a [] w = Some (Inr (), w)"
| "main_requests dec a (u # us) w =
     (case sendSmuggledRequest dec (smuggled_request_headers_of a u (request_path u)) a
             (emit (Print (''[INFO] Requesting - '' @ request_path u)) w) of
        None \<Rightarrow> None
      | Some (Inl e, w') \<Rightarrow> Some (Inl e, w')
      | Some (Inr _, w') \<Rightarrow> main_requests dec a us w')"

section \<open>The two operations on one proxy\<close>

text \<open>
  \<open>main\<close> after a successful upgrade (lines 147 to 196), with \<open>extra_data\<close> the first
  component of what \<open>get_upgrade_response\<close> returned.
\<close>

definition main_upgraded ::
  "decoder \<Rightarrow> args \<Rightarrow> bytes option \<Rightarrow> world \<Rightarrow> ((py_error + unit) \<times> world) option" where
  "main_upgraded dec a extra_data w =
     (let w1 = emit (Print ''[INFO] h2c stream established successfully.'') w
      in if arg_test a
         then Some (Inl (SystemExit 0),
                    emit (Print (''[INFO] Success! '' @ arg_proxy a @ '' can be used for tunneling'')) w1)
         else
           (let w2 = sendall_data_to_send w1
            in case extra_data of
                 None \<Rightarrow> Some (Inl TypeError, w2)
               | Some extra \<Rightarrow>
                   (case receive_data dec extra w2 of
                      (Inl e, w3) \<Rightarrow> Some (Inl e, w3)
                    | (Inr events0, w3) \<Rightarrow>
                        (case getData dec w3 of
                           None \<Rightarrow> None
                         | Some (Inl e, w4) \<Rightarrow> Some (Inl e, w4)
                         | Some (Inr events, w4) \<Rightarrow>
                             (case handle_events events (arg_verbose a) (sendall_data_to_send w4) of
                                (Inl e, w5) \<Rightarrow> Some (Inl e, w5)
                              | (Inr _, w5) \<Rightarrow>
                                  (case arg_urls a of
                                     Inl e \<Rightarrow> Some (Inl e, w5)
                                   | Inr us \<Rightarrow>
                                       (case main_requests dec a us w5 of
                                          None \<Rightarrow> None
                                        | Some (Inl e, w6) \<Rightarrow> Some (Inl e, w6)
                                        | Some (Inr _, w6) \<Rightarrow>
                                            Some (Inr (),
                                                  emit Close (emit Shutdown
                                                    (sendall_data_to_send (close_connection w6)))))))))))"

definition main ::
  "decoder \<Rightarrow> bool \<Rightarrow> args \<Rightarrow> world \<Rightarrow> ((py_error + unit) \<times> world) option" where
  "main dec UPGRADE_ONLY a w =
     (if \<not> startswith (arg_proxy a) ''http''
      then Some (Inl (SystemExit 1),
                 emit (PrintErr (''[ERROR]: invalid protocol: '' @ arg_proxy a)) w)
      else (case establish_tcp_connection (arg_proxy_url a) w of
              (Inl e, w1) \<Rightarrow> Some (Inl e, w1)
            | (Inr _, w1) \<Rightarrow>
                (case initiate_upgrade_connection (H2Connection w1) of
                   (settings_header_value, w2) \<Rightarrow>
                     (case send_initial_request UPGRADE_ONLY (arg_proxy_url a)
                             settings_header_value w2 of
                        (Inl e, w3) \<Rightarrow> Some (Inl e, w3)
                      | (Inr _, w3) \<Rightarrow>
                          (case get_upgrade_response (arg_proxy_url a) w3 of
                             None \<Rightarrow> None
                           | Some (Inl e, w4) \<Rightarrow> Some (Inl e, w4)
                           | Some (Inr (extra_data, success), w4) \<Rightarrow>
                               (if \<not> success then Some (Inl (SystemExit 1), w4)
                                else main_upgraded dec a extra_data w4))))))"

text \<open>
  \<open>scan line\<close>, with \<open>proxy_url\<close> the result of \<open>urlparse(line)\<close>. The \<open>try\<close> body is
  \<open>scan_body\<close>; it returns the exception raised, if any, and whether \<open>connection\<close>
  has been assigned. \<open>scan\<close> adds the \<open>except Exception\<close> and \<open>finally\<close> clauses.
\<close>

definition scan_body ::
  "bool \<Rightarrow> string \<Rightarrow> url \<Rightarrow> world \<Rightarrow> ((py_error + unit) \<times> bool \<times> world) option" where
  "scan_body UPGRADE_ONLY line proxy_url w =
     (if \<not> startswith line ''http''
      then Some (Inr (), False,
                 emit (Print (''[ERROR]: skipping invalid protocol: '' @ line)) w)
      else (case establish_tcp_connection proxy_url w of
              (Inl e, w1) \<Rightarrow> Some (Inl e, False, w1)
            | (Inr _, w1) \<Rightarrow>
                (case initiate_upgrade_connection (H2Connection w1) of
                   (settings_header_value, w2) \<Rightarrow>
                     (case send_initial_request UPGRADE_ONLY proxy_url
                             settings_header_value w2 of
                        (Inl e, w3) \<Rightarrow> Some (Inl e, True, w3)
                      | (Inr _, w3) \<Rightarrow>
                          (case get_upgrade_response proxy_url w3 of
                             None \<Rightarrow> None
                           | Some (Inl e, w4) \<Rightarrow> Some (Inl e, True, w4)
                           | Some (Inr (_, success), w4) \<Rightarrow>
                               (if \<not> success then Some (Inr (), True, w4)
                                else Some (Inr (), True,
                                           emit (Print (''[INFO] Success! '' @ line
                                                        @ '' can be used for tunneling'')) w4)))))))"

definition scan ::
  "bool \<Rightarrow> string \<Rightarrow> url \<Rightarrow> world \<Rightarrow> ((py_error + unit) \<times> world) option" where
  "scan UPGRADE_ONLY line proxy_url w =
     (case scan_body UPGRADE_ONLY line proxy_url w of
        None \<Rightarrow> None
      | Some (r, connection_set, w1) \<Rightarrow>
          (let (r', w2) = (case r of
                             Inl e \<Rightarrow> (if is_Exception e then (Inr (), emit (PrintExc e line) w1)
                                       else (Inl e, w1))
                           | Inr _ \<Rightarrow> (Inr (), w1))
           in Some (r', if connection_set then emit Close (emit Shutdown w2) else w2)))"


section \<open>The HTTP2-Settings value\<close>

text \<open>
  The value of an \<open>HTTP2-Settings\<close> header is the base64url encoding (RFC 4648,
  section 5) of the payload of a SETTINGS frame (RFC 7540, section 3.2.1). The
  payload is a sequence of parameters, each a 16-bit identifier followed by a
  32-bit value (RFC 7540, section 6.5.1). Octets are numbers below 256.
\<close>

definition b64_value :: "char \<Rightarrow> nat option" where
  "b64_value c =
     (let n = (of_char c :: nat)
      in if 65 \<le> n \<and> n \<le> 90 then Some (n - 65)
         else if 97 \<le> n \<and> n \<le> 122 then Some (n - 71)
         else if 48 \<le> n \<and> n \<le> 57 then Some (n + 4)
         else if c = CHR ''-'' then Some 62
         else if c = CHR ''_'' then Some 63
         else None)"

fun b64_octets :: "nat list \<Rightarrow> nat list option" where
  "b64_octets (a # b # c # d # r) =
     (case b64_octets r of
        None \<Rightarrow> None
      | Some os \<Rightarrow> Some ((4 * a + b div 16) # (16 * (b mod 16) + c div 4)
                        # (64 * (c mod 4) + d) # os))"
| "b64_octets [a, b, c] = Some [4 * a + b div 16, 16 * (b mod 16) + c div 4]"
| "b64_octets [a, b] = Some [4 * a + b div 16]"
| "b64_octets [a] = None"
| "b64_octets [] = Some []"

definition b64decode :: "bytes \<Rightarrow> nat list option" where
  "b64decode s = (case those (map b64_value s) of None \<Rightarrow> None | Some vs \<Rightarrow> b64_octets vs)"

fun parse_settings :: "nat list \<Rightarrow> (nat \<times> nat) list option" where
  "parse_settings [] = Some []"
| "parse_settings (i1 # i0 # v3 # v2 # v1 # v0 # r) =
     (case parse_settings r of
        None \<Rightarrow> None
      | Some ps \<Rightarrow> Some ((256 * i1 + i0, ((256 * v3 + v2) * 256 + v1) * 256 + v0) # ps))"
| "parse_settings _ = None"

text \<open>
  The initial value of each parameter (RFC 7540, section 6.5.2); parameters 3
  (SETTINGS_MAX_CONCURRENT_STREAMS) and 6 (SETTINGS_MAX_HEADER_LIST_SIZE) are
  unlimited initially, so no value sent for them is the default.
\<close>

definition initial_setting :: "nat \<Rightarrow> nat option" where
  "initial_setting i =
     (if i = 1 then Some 4096 else if i = 2 then Some 1 else if i = 4 then Some 65535
      else if i = 5 then Some 16384 else None)"

text \<open>
  A payload is empty or default when it parses and every parameter in it carries
  its initial value; the empty payload is the case of no parameter.
\<close>

definition empty_or_default_settings :: "nat list \<Rightarrow> bool" where
  "empty_or_default_settings payload =
     (case parse_settings payload of
        None \<Rightarrow> False
      | Some ps \<Rightarrow> list_all (\<lambda>(i, v). initial_setting i = Some v) ps)"

section \<open>Reading the trace\<close>

definition is_Recv :: "io \<Rightarrow> bool" where
  "is_Recv x = (case x of Recv _ \<Rightarrow> True | _ \<Rightarrow> False)"

definition is_Feed :: "io \<Rightarrow> bool" where
  "is_Feed x = (case x of Feed _ \<Rightarrow> True | _ \<Rightarrow> False)"

text \<open>The stream IDs of the HEADERS frames written to the socket, in order.\<close>

fun frame_ids :: "h2_frame list \<Rightarrow> nat list" where
  "frame_ids [] = []"
| "frame_ids (HeadersFrame stream_id _ _ # fs) = stream_id # frame_ids fs"
| "frame_ids (_ # fs) = frame_ids fs"

fun opened_ids :: "io list \<Rightarrow> nat list" where
  "opened_ids [] = []"
| "opened_ids (SendFrames fs # t) = frame_ids fs @ opened_ids t"
| "opened_ids (_ # t) = opened_ids t"

text \<open>
  The events the decoder \<open>dec\<close> produced along the part \<open>t\<close> of a trace that follows
  the part \<open>pre\<close>: at each \<open>Feed d\<close>, what \<open>dec\<close> returns for \<open>d\<close> after all that happened
  before.
\<close>

fun decoded :: "decoder \<Rightarrow> io list \<Rightarrow> io list \<Rightarrow> event list" where
  "decoded dec pre [] = []"
| "decoded dec pre (Feed d # t) =
     (case dec pre d of None \<Rightarrow> [] | Some events \<Rightarrow> events) @ decoded dec (pre @ [Feed d]) t"
| "decoded dec pre (x # t) = decoded dec (pre @ [x]) t"

section \<open>A fake peer and a fake decoder\<close>

text \<open>
  Concrete inputs on which the program is run below. The fake decoder reads every
  byte as one event: \<open>H\<close> a response with one header, \<open>D\<close> a data chunk, \<open>E\<close> the
  end of stream 1, \<open>R\<close> a reset of stream 1 with error code 8, \<open>!\<close> a malformed
  frame, any other byte some other event.
\<close>

fun fake_events :: "bytes \<Rightarrow> event list option" where
  "fake_events [] = Some []"
| "fake_events (c # cs) =
     (if c = CHR ''!'' then None
      else (case fake_events cs of
              None \<Rightarrow> None
            | Some events \<Rightarrow>
                Some ((if c = CHR ''H'' then ResponseReceived 1 [('':status'', ''200'')]
                       else if c = CHR ''D'' then DataReceived 1 ''hello''
                       else if c = CHR ''E'' then StreamEnded 1
                       else if c = CHR ''R'' then StreamReset 1 8
                       else OtherEvent [c]) # events)))"

definition fake_decoder :: decoder where
  "fake_decoder t d = fake_events d"

text \<open>
  A decoder that differs from \<open>fake_decoder\<close> only on the first bytes it is given:
  it accepts and rejects the same bytes, but finds no event in them.
\<close>

definition deaf_start_decoder :: decoder where
  "deaf_start_decoder t d =
     (if list_ex is_Feed t then fake_events d
      else (case fake_events d of None \<Rightarrow> None | Some _ \<Rightarrow> Some []))"

definition peer :: "recv_outcome list \<Rightarrow> peer_end \<Rightarrow> world" where
  "peer script e =
     \<lparr>incoming = script, peer_end = e, connect_failure = None,
      highest_outbound_stream_id = 0, outbound = [], trace = []\<rparr>"

definition example_url :: url where
  "example_url =
     \<lparr>scheme = ''http'', hostname = Some ''proxy.test'', port = None, path = [],
      query = [], geturl = ''http://proxy.test''\<rparr>"

definition target_url :: "string \<Rightarrow> url" where
  "target_url p =
     \<lparr>scheme = ''http'', hostname = Some ''victim.internal'', port = None, path = p,
      query = [], geturl = ''http://victim.internal'' @ p\<rparr>"

definition example_args :: "bool \<Rightarrow> url list \<Rightarrow> args" where
  "example_args t us =
     \<lparr>arg_proxy = ''http://proxy.test'', arg_proxy_url = example_url, arg_test = t,
      arg_verbose = False, arg_data = None, arg_request = ''GET'', arg_header = None,
      arg_urls = Inr us\<rparr>"

definition switching_protocols :: bytes where
  "switching_protocols =
     ''HTTP/1.1 101 Switching Protocols'' @ CRLF @ ''Connection: Upgrade'' @ CRLF
     @ ''Upgrade: h2c'' @ CRLFCRLF"

definition forbidden :: bytes where
  "forbidden = ''HTTP/1.1 403 Forbidden'' @ CRLF @ ''Content-Length: 0'' @ CRLFCRLF"

text \<open>
  The upgrade request as the specification words it, to be compared with what
  \<open>send_initial_request\<close> writes: the request line, \<open>Host\<close>, \<open>Accept\<close>,
  \<open>Accept-Language\<close>, \<open>Upgrade: h2c\<close>, the \<open>HTTP2-Settings\<close> header unless
  \<open>upgradeOnly\<close> is set, \<open>Connection: Upgrade\<close> with \<open>, HTTP2-Settings\<close> unless
  \<open>upgradeOnly\<close> is set, and an empty line.
\<close>

definition spec_upgrade_request :: "bool \<Rightarrow> string \<Rightarrow> string \<Rightarrow> bytes" where
  "spec_upgrade_request upgradeOnly p host =
     concat (map (\<lambda>l. l @ CRLF)
       ([''GET '' @ p @ '' HTTP/1.1'', ''Host: '' @ host, ''Accept: */*'',
         ''Accept-Language: en'', ''Upgrade: h2c'']
        @ (if upgradeOnly then [] else [''HTTP2-Settings: '' @ HTTP2_SETTINGS])
        @ [''Connection: Upgrade'' @ (if upgradeOnly then [] else '', HTTP2-Settings''), []]))"

text \<open>The lines printed, and a state that differs from another by printed lines only.\<close>

definition is_print :: "io \<Rightarrow> bool" where
  "is_print x = (case x of Print _ \<Rightarrow> True | PrintData _ \<Rightarrow> True | PrintInfo _ \<Rightarrow> True
                 | PrintErr _ \<Rightarrow> True | PrintExc _ _ \<Rightarrow> True | _ \<Rightarrow> False)"

definition prints_only :: "world \<Rightarrow> world \<Rightarrow> bool" where
  "prints_only w w' = (\<exists>new. w' = w\<lparr>trace := trace w @ new\<rparr> \<and> list_all is_print new)"

text \<open>
  \<open>drain_trace dec events w y new\<close>: the loop of \<open>getData\<close>, entered in state \<open>w\<close> with
  the events \<open>events\<close> accumulated, has left with \<open>y\<close> after the actions \<open>new\<close>. It
  has only read the socket and fed the decoder; at no earlier point did the
  accumulated events end with \<open>StreamEnded\<close>; and when it returned events, these are
  all that were decoded, and its last action was a decoder call if they end with
  \<open>StreamEnded\<close>, a read that timed out otherwise.
\<close>

definition drain_trace ::
  "decoder \<Rightarrow> event list \<Rightarrow> world \<Rightarrow> (py_error + event list) \<times> world \<Rightarrow> io list \<Rightarrow> bool" where
  "drain_trace dec events w y new =
     (snd y = w\<lparr>incoming := incoming (snd y), trace := trace w @ new\<rparr>
      \<and> list_all (\<lambda>x. is_Recv x \<or> is_Feed x) new
      \<and> (\<forall>n<length new. \<not> ends_with_StreamEnded (events @ decoded dec (trace w) (take n new)))
      \<and> (\<forall>evs. fst y = Inr evs \<longrightarrow>
             evs = events @ decoded dec (trace w) new
             \<and> (if ends_with_StreamEnded evs then (\<exists>p d. new = p @ [Recv (Inr d), Feed d])
                else (\<exists>p. new = p @ [Recv (Inl SocketTimeout)]))))"

text \<open>
  \<open>io_only P w w'\<close>: the state \<open>w'\<close> comes from \<open>w\<close> by reading from the socket and by
  actions that satisfy \<open>P\<close>; the state of the HTTP/2 connection object is the same.
  The actions of \<open>silent_io\<close> write nothing to the socket.
\<close>

definition io_only :: "(io \<Rightarrow> bool) \<Rightarrow> world \<Rightarrow> world \<Rightarrow> bool" where
  "io_only P w w' =
     (\<exists>new. w' = w\<lparr>incoming := incoming w', trace := trace w @ new\<rparr> \<and> list_all P new)"

definition silent_io :: "io \<Rightarrow> bool" where
  "silent_io x = (is_Recv x \<or> is_Feed x \<or> is_print x)"

text \<open>The stream ID that follows the highest one used so far.\<close>

definition next_id :: "nat \<Rightarrow> nat" where
  "next_id h = (if h = 0 then 1 else h + 2)"

text \<open>
  \<open>upgrade_reads data w y chunks\<close>: the loop of \<open>get_upgrade_response\<close>, entered in
  state \<open>w\<close> with \<open>data\<close> accumulated, has left with \<open>y\<close> after reading \<open>chunks\<close>, one
  per \<open>recv\<close>. It returns the bytes accumulated, which then contain the end of the
  headers, or it fails on one more \<open>recv\<close>, which timed out.
\<close>

definition upgrade_reads ::
  "bytes \<Rightarrow> world \<Rightarrow> (py_error + bytes) \<times> world \<Rightarrow> bytes list \<Rightarrow> bool" where
  "upgrade_reads data w y chunks =
     (case fst y of
        Inr data' \<Rightarrow>
          data' = data @ concat chunks \<and> contains CRLFCRLF data'
          \<and> snd y = w\<lparr>incoming := incoming (snd y),
                       trace := trace w @ map (\<lambda>d. Recv (Inr d)) chunks\<rparr>
      | Inl e \<Rightarrow>
          e = SocketTimeout
          \<and> snd y = w\<lparr>incoming := incoming (snd y),
                       trace := trace w @ map (\<lambda>d. Recv (Inr d)) chunks
                                @ [Recv (Inl SocketTimeout)]\<rparr>)"

text \<open>
  The actions of the drain loop on the chunks \<open>ds\<close>: each is read and given to the
  decoder. \<open>accepted dec pre ds\<close>: the decoder \<open>dec\<close>, after the trace \<open>pre\<close>, raises on
  none of them.
\<close>

fun feeds :: "bytes list \<Rightarrow> io list" where
  "feeds [] = []"
| "feeds (d # ds) = Recv (Inr d) # Feed d # feeds ds"

fun accepted :: "decoder \<Rightarrow> io list \<Rightarrow> bytes list \<Rightarrow> bool" where
  "accepted dec pre [] = True"
| "accepted dec pre (d # ds) =
     (dec (pre @ [Recv (Inr d)]) d \<noteq> None \<and> accepted dec (pre @ [Recv (Inr d), Feed d]) ds)"

section \<open>Properties\<close>


subsection \<open>The upgrade request (C2, C8)\<close>

text \<open>
  C2, as stated, fails: with \<open>UPGRADE_ONLY\<close> set the program still sends the
  \<open>HTTP2-Settings\<close> header line, so what it writes is not the request of the
  specification, which omits that line.
\<close>

theorem upgrade_only_keeps_settings_header:
  "send_initial_request True example_url [] (peer [] Silent)
     \<noteq> (Inr (), emit (SendRaw (spec_upgrade_request True ''/'' ''proxy.test'')) (peer [] Silent))"
  by code_simp

text \<open>
  C2, amended: for every target with a host name, whose path and host name can be
  encoded as UTF-8, \<open>send_initial_request\<close> writes exactly these lines, each ended by
  CR LF: the request line with the target's path (\<open>/\<close> when it is empty), \<open>Host\<close>,
  \<open>Accept\<close>, \<open>Accept-Language\<close>, \<open>Upgrade: h2c\<close>, the fixed \<open>HTTP2-Settings\<close> header
  whether or not \<open>UPGRADE_ONLY\<close> is set, a \<open>Connection\<close> header whose value is
  \<open>Upgrade\<close> plus \<open>, HTTP2-Settings\<close> unless \<open>UPGRADE_ONLY\<close> is set, and an empty
  line.
\<close>

theorem send_initial_request_wire:
  assumes "hostname proxy_url = Some host"
      and "utf8_valid host" and "utf8_valid (path proxy_url)"
  shows "send_initial_request UPGRADE_ONLY proxy_url settings w =
     (Inr (),
      emit (SendRaw (concat (map (\<lambda>l. l @ CRLF)
        [''GET '' @ (if path proxy_url = [] then ''/'' else path proxy_url) @ '' HTTP/1.1'',
         ''Host: '' @ host,
         ''Accept: */*'',
         ''Accept-Language: en'',
         ''Upgrade: h2c'',
         ''HTTP2-Settings: AAMAAABkAARAAAAAAAIAAAAA'',
         ''Connection: Upgrade'' @ (if UPGRADE_ONLY then [] else '', HTTP2-Settings''),
         []]))) w)"
  using assms
  by (simp add: send_initial_request_def encode_utf8_def in_range_def HTTP2_SETTINGS_def)

text \<open>C2, amended, on the example target with \<open>UPGRADE_ONLY\<close> set.\<close>

theorem send_initial_request_wire_witness:
  "hostname example_url = Some ''proxy.test''
   \<and> utf8_valid ''proxy.test'' \<and> utf8_valid (path example_url)
   \<and> send_initial_request True example_url [] (peer [] Silent) =
     (Inr (),
      emit (SendRaw (concat (map (\<lambda>l. l @ CRLF)
        [''GET / HTTP/1.1'', ''Host: proxy.test'', ''Accept: */*'', ''Accept-Language: en'',
         ''Upgrade: h2c'', ''HTTP2-Settings: AAMAAABkAARAAAAAAAIAAAAA'',
         ''Connection: Upgrade'', []]))) (peer [] Silent))"
proof -
  have h: "hostname example_url = Some ''proxy.test''"
    by (simp add: example_url_def)
  have p: "path example_url = []"
    by (simp add: example_url_def)
  have u: "utf8_valid ''proxy.test''"
    by code_simp
  have v: "utf8_valid (path example_url)"
    by (simp add: p)
  show ?thesis
    using h u v send_initial_request_wire [OF h u v, of True "[]" "peer [] Silent"]
    by (simp add: p)
qed

text \<open>
  Outside these targets nothing is written: a target without a host name, or one
  whose path or host name holds a byte that is not UTF-8, makes the function raise
  before it reaches \<open>sendall\<close>.
\<close>

lemma send_initial_request_raises:
  assumes "hostname proxy_url = None \<or> \<not> utf8_valid (path proxy_url)
           \<or> (\<exists>host. hostname proxy_url = Some host \<and> \<not> utf8_valid host)"
  shows "\<exists>e. send_initial_request UPGRADE_ONLY proxy_url settings w = (Inl e, w)"
  using assms
  by (auto simp: send_initial_request_def encode_utf8_def in_range_def Let_def
        split: option.splits)

text \<open>
  C8, as stated, fails: the constant decodes to eighteen octets, not to an empty
  payload, and the parameters in it do not carry their initial values.
\<close>

theorem http2_settings_not_empty_or_default:
  "b64decode HTTP2_SETTINGS = Some [0, 3, 0, 0, 0, 100, 0, 4, 64, 0, 0, 0, 0, 2, 0, 0, 0, 0]
   \<and> \<not> empty_or_default_settings [0, 3, 0, 0, 0, 100, 0, 4, 64, 0, 0, 0, 0, 2, 0, 0, 0, 0]"
  by code_simp

text \<open>
  C8, amended: the constant decodes to the payload of a SETTINGS frame with three
  parameters: SETTINGS_MAX_CONCURRENT_STREAMS (3) = 100, SETTINGS_INITIAL_WINDOW_SIZE
  (4) = 1073741824 and SETTINGS_ENABLE_PUSH (2) = 0.
\<close>

theorem http2_settings_parameters:
  "Option.bind (b64decode HTTP2_SETTINGS) parse_settings
     = Some [(3, 100), (4, 1073741824), (2, 0)]"
  by code_simp

subsection \<open>A peer that never completes the response headers (C6)\<close>

text \<open>
  Once the peer has closed the connection every \<open>recv\<close> returns \<open>b''\<close> at once, the
  accumulated bytes no longer change, and the loop of \<open>get_upgrade_response\<close> has no
  way out.
\<close>

lemma closed_peer_never_returns:
  assumes "get_upgrade_response_loop data w = Some y"
  shows "\<not> (incoming w = [] \<and> peer_end w = Closed \<and> \<not> contains CRLFCRLF data)"
proof (rule get_upgrade_response_loop.raw_induct
    [where P = "\<lambda>data w y. \<not> (incoming w = [] \<and> peer_end w = Closed \<and> \<not> contains CRLFCRLF data)",
     OF _ assms])
  fix loop :: "bytes \<Rightarrow> world \<Rightarrow> ((py_error + bytes) \<times> world) option"
  fix data w y
  assume IH: "\<And>d v z. loop d v = Some z \<Longrightarrow>
                \<not> (incoming v = [] \<and> peer_end v = Closed \<and> \<not> contains CRLFCRLF d)"
  assume step: "(if contains CRLFCRLF data then Some (Inr data, w)
                 else case recv w of (Inl e, w') \<Rightarrow> Some (Inl e, w')
                      | (Inr d, w') \<Rightarrow> loop (data @ d) w') = Some y"
  show "\<not> (incoming w = [] \<and> peer_end w = Closed \<and> \<not> contains CRLFCRLF data)"
  proof
    assume a: "incoming w = [] \<and> peer_end w = Closed \<and> \<not> contains CRLFCRLF data"
    then have r: "recv w = (Inr [], emit (Recv (Inr [])) w)"
      by (simp add: recv_def)
    from step a r have "loop data (emit (Recv (Inr [])) w) = Some y"
      by simp
    from IH [OF this] a show False
      by (simp add: emit_def)
  qed
qed

lemma closed_peer_loops:
  "incoming w = [] \<Longrightarrow> peer_end w = Closed \<Longrightarrow> \<not> contains CRLFCRLF data
     \<Longrightarrow> get_upgrade_response_loop data w = None"
  using closed_peer_never_returns [of data w] by (cases "get_upgrade_response_loop data w") auto

text \<open>
  C6 on a peer that sends a status line and closes the connection: the claim has
  \<open>get_upgrade_response\<close> fail when the timeout elapses; the program never returns.
\<close>

theorem get_upgrade_response_closed_peer_never_returns:
  "get_upgrade_response example_url (peer [Chunk (''HTTP/1.1 200 OK'' @ CRLF)] Closed) = None"
proof -
  let ?d = "''HTTP/1.1 200 OK'' @ CRLF"
  have n0: "\<not> contains CRLFCRLF []" by code_simp
  have n1: "\<not> contains CRLFCRLF ?d" by code_simp
  have r: "recv (peer [Chunk ?d] Closed)
             = (Inr ?d, emit (Recv (Inr ?d)) (peer [] Closed))"
    by (simp add: recv_def peer_def)
  have "get_upgrade_response_loop [] (peer [Chunk ?d] Closed)
          = get_upgrade_response_loop ?d (emit (Recv (Inr ?d)) (peer [] Closed))"
    by (subst get_upgrade_response_loop.simps) (simp only: n0 r if_False prod.case sum.case append_Nil)
  also have "\<dots> = None"
    using n1 by (intro closed_peer_loops) (simp_all add: emit_def peer_def)
  finally show ?thesis
    by (simp add: get_upgrade_response_def)
qed

subsection \<open>Releasing the connection (C7)\<close>

text \<open>
  C7 on three runs of \<open>main\<close>: test mode against a peer that answers 101, a peer that
  answers 403, and a stream reset during the exchange. Each leaves \<open>main\<close> with the
  connection neither shut down nor closed, where the claim has it shut down and
  closed once. \<open>scan\<close> on the peer that answers 403 does both, once.
\<close>

theorem main_exits_without_closing:
  "map_option (\<lambda>(r, w). (r, count_list (trace w) Shutdown, count_list (trace w) Close))
     (main fake_decoder False (example_args True []) (peer [Chunk switching_protocols] Silent))
     = Some (Inl (SystemExit 0), 0, 0)
   \<and> map_option (\<lambda>(r, w). (r, count_list (trace w) Shutdown, count_list (trace w) Close))
     (main fake_decoder False (example_args False [target_url ''/'']) (peer [Chunk forbidden] Silent))
     = Some (Inl (SystemExit 1), 0, 0)
   \<and> map_option (\<lambda>(r, w). (r, count_list (trace w) Shutdown, count_list (trace w) Close))
     (main fake_decoder False (example_args False [target_url ''/''])
        (peer [Chunk switching_protocols, TimesOut, Chunk ''R''] Silent))
     = Some (Inl (RuntimeError ''stream reset: 8''), 0, 0)
   \<and> map_option (\<lambda>(r, w). (r, count_list (trace w) Shutdown, count_list (trace w) Close))
     (scan False ''http://proxy.test'' example_url (peer [Chunk forbidden] Silent))
     = Some (Inr (), 1, 1)"
  by code_simp

subsection \<open>The upgrade response (C1)\<close>

text \<open>What \<open>headers.split()\<close> makes of a header block that starts with two tokens.\<close>

lemma split_ws_skip_spaces:
  "\<forall>c\<in>set ws. is_space c \<Longrightarrow> split_ws [] (ws @ s) = split_ws [] s"
  by (induction ws) simp_all

lemma split_ws_token:
  "\<forall>c\<in>set v. \<not> is_space c \<Longrightarrow> split_ws cur (v @ s) = split_ws (cur @ v) s"
  by (induction v arbitrary: cur) simp_all

lemma split_ws_end_token:
  assumes "cur \<noteq> []" and "s = [] \<or> is_space (hd s)"
  shows "split_ws cur s = cur # split_ws [] (tl s)"
  using assms by (cases s) auto

lemma py_split_status_line:
  assumes "\<forall>c\<in>set ws0. is_space c"
      and "version \<noteq> []" and "\<forall>c\<in>set version. \<not> is_space c"
      and "ws1 \<noteq> []" and "\<forall>c\<in>set ws1. is_space c"
      and "code \<noteq> []" and "\<forall>c\<in>set code. \<not> is_space c"
      and "tail = [] \<or> is_space (hd tail)"
  shows "py_split (ws0 @ version @ ws1 @ code @ tail) = version # code # py_split (tl tail)"
proof -
  have "split_ws [] (ws0 @ version @ ws1 @ code @ tail) = split_ws version (ws1 @ code @ tail)"
    using assms(1,3) by (simp add: split_ws_skip_spaces split_ws_token)
  also have "\<dots> = version # split_ws [] (tl (ws1 @ code @ tail))"
    using assms(2,4,5) by (intro split_ws_end_token) (cases ws1; simp)+
  also have "split_ws [] (tl (ws1 @ code @ tail)) = split_ws code tail"
    using assms(4,5,7) split_ws_skip_spaces [of "tl ws1" "code @ tail"]
    by (cases ws1) (simp_all add: split_ws_token)
  also have "\<dots> = code # split_ws [] (tl tail)"
    using assms(6,8) by (rule split_ws_end_token)
  finally show ?thesis
    by (simp add: py_split_def)
qed


text \<open>
  What the function makes of the accumulated bytes once the read loop has returned
  them: let the header block, the bytes before the first empty line, start with two
  tokens separated by whitespace, \<open>version\<close> and \<open>code\<close>; whatever follows the second
  token is arbitrary. Then the flag is true exactly when \<open>code\<close> is \<open>101\<close>.
\<close>

theorem upgrade_succeeds_iff_101:
  assumes "get_upgrade_response_loop [] w = Some (Inr data, w')"
      and "split_first CRLFCRLF data = Some (ws0 @ version @ ws1 @ code @ tail, rest)"
      and "\<forall>c\<in>set ws0. is_space c"
      and "version \<noteq> []" and "\<forall>c\<in>set version. \<not> is_space c"
      and "ws1 \<noteq> []" and "\<forall>c\<in>set ws1. is_space c"
      and "code \<noteq> []" and "\<forall>c\<in>set code. \<not> is_space c"
      and "tail = [] \<or> is_space (hd tail)"
  shows "get_upgrade_response proxy_url w =
           Some (if code = ''101'' then (Inr (Some rest, True), w')
                 else (Inr (None, False),
                       emit (Print (''[INFO] Failed to upgrade: '' @ geturl proxy_url)) w'))"
  using assms(1,2) py_split_status_line [OF assms(3-10)]
  by (simp add: get_upgrade_response_def read_upgrade_response_def)

text \<open>The same on a peer that answers 101 and on a peer that answers 403.\<close>

theorem upgrade_succeeds_iff_101_witness:
  "get_upgrade_response example_url (peer [Chunk (switching_protocols @ ''HDE'')] Silent)
     = Some (Inr (Some ''HDE'', True),
             emit (Recv (Inr (switching_protocols @ ''HDE''))) (peer [] Silent))
   \<and> get_upgrade_response example_url (peer [Chunk forbidden] Silent)
     = Some (Inr (None, False),
             emit (Print ''[INFO] Failed to upgrade: http://proxy.test'')
               (emit (Recv (Inr forbidden)) (peer [] Silent)))"
proof -
  let ?t1 = "'' Switching Protocols'' @ CRLF @ ''Connection: Upgrade'' @ CRLF @ ''Upgrade: h2c''"
  let ?t2 = "'' Forbidden'' @ CRLF @ ''Content-Length: 0''"
  have l1: "get_upgrade_response_loop [] (peer [Chunk (switching_protocols @ ''HDE'')] Silent)
              = Some (Inr (switching_protocols @ ''HDE''),
                      emit (Recv (Inr (switching_protocols @ ''HDE''))) (peer [] Silent))"
    by code_simp
  have s1: "split_first CRLFCRLF (switching_protocols @ ''HDE'')
              = Some ([] @ ''HTTP/1.1'' @ '' '' @ ''101'' @ ?t1, ''HDE'')"
    by code_simp
  have l2: "get_upgrade_response_loop [] (peer [Chunk forbidden] Silent)
              = Some (Inr forbidden, emit (Recv (Inr forbidden)) (peer [] Silent))"
    by code_simp
  have s2: "split_first CRLFCRLF forbidden
              = Some ([] @ ''HTTP/1.1'' @ '' '' @ ''403'' @ ?t2, [])"
    by code_simp
  have a: "get_upgrade_response example_url (peer [Chunk (switching_protocols @ ''HDE'')] Silent)
     = Some (Inr (Some ''HDE'', True),
             emit (Recv (Inr (switching_protocols @ ''HDE''))) (peer [] Silent))"
    using upgrade_succeeds_iff_101 [OF l1 s1, of example_url]
    by (simp add: is_space_def)
  have b: "get_upgrade_response example_url (peer [Chunk forbidden] Silent)
     = Some (Inr (None, False),
             emit (Print ''[INFO] Failed to upgrade: http://proxy.test'')
               (emit (Recv (Inr forbidden)) (peer [] Silent)))"
    using upgrade_succeeds_iff_101 [OF l2 s2, of example_url]
    by (simp add: is_space_def example_url_def)
  from a b show ?thesis ..
qed

text \<open>
  A header block with fewer than two tokens has no status code token; there
  \<open>split_headers[1]\<close> raises.
\<close>

lemma missing_status_code_raises:
  assumes "get_upgrade_response_loop [] w = Some (Inr data, w')"
      and "split_first CRLFCRLF data = Some (headers, rest)"
      and "length (py_split headers) < 2"
  shows "get_upgrade_response proxy_url w = Some (Inl IndexError, w')"
proof -
  from assms(3) have "py_split headers = [] \<or> (\<exists>x. py_split headers = [x])"
    by (cases "py_split headers") (auto simp: Suc_lessI)
  then show ?thesis
    using assms(1,2) by (auto simp: get_upgrade_response_def read_upgrade_response_def)
qed

subsection \<open>What each function does to the state\<close>

lemma emit_fields [simp]:
  "trace (emit x w) = trace w @ [x]"
  "incoming (emit x w) = incoming w"
  "peer_end (emit x w) = peer_end w"
  "connect_failure (emit x w) = connect_failure w"
  "highest_outbound_stream_id (emit x w) = highest_outbound_stream_id w"
  "outbound (emit x w) = outbound w"
  by (simp_all add: emit_def)

lemma prints_only_refl [simp]: "prints_only w w"
proof -
  have "w = w\<lparr>trace := trace w @ []\<rparr>" by simp
  then show ?thesis
    unfolding prints_only_def by (intro exI [of _ "[]"]) simp
qed

lemma prints_only_emit:
  assumes "is_print x" and "prints_only (emit x w) w'"
  shows "prints_only w w'"
proof -
  from assms(2) obtain new where
    n: "w' = (emit x w)\<lparr>trace := trace (emit x w) @ new\<rparr>" "list_all is_print new"
    unfolding prints_only_def by blast
  from n(1) have "w' = w\<lparr>trace := trace w @ (x # new)\<rparr>"
    by (simp add: emit_def)
  moreover from n(2) assms(1) have "list_all is_print (x # new)"
    by simp
  ultimately show ?thesis
    unfolding prints_only_def by blast
qed

lemma prints_only_trans:
  assumes "prints_only w w1" and "prints_only w1 w2"
  shows "prints_only w w2"
proof -
  from assms obtain n1 n2 where
    n: "w1 = w\<lparr>trace := trace w @ n1\<rparr>" "list_all is_print n1"
       "w2 = w1\<lparr>trace := trace w1 @ n2\<rparr>" "list_all is_print n2"
    unfolding prints_only_def by blast
  from n(1,3) have "w2 = w\<lparr>trace := trace w @ (n1 @ n2)\<rparr>"
    by simp
  moreover from n(2,4) have "list_all is_print (n1 @ n2)"
    by simp
  ultimately show ?thesis
    unfolding prints_only_def by blast
qed

lemma prints_only_emit_end:
  assumes "is_print x" and "prints_only w w'"
  shows "prints_only w (emit x w')"
proof -
  from assms(2) obtain new where
    n: "w' = w\<lparr>trace := trace w @ new\<rparr>" "list_all is_print new"
    unfolding prints_only_def by blast
  from n(1) have "emit x w' = w\<lparr>trace := trace w @ (new @ [x])\<rparr>"
    by (simp add: emit_def)
  moreover from n(2) assms(1) have "list_all is_print (new @ [x])"
    by simp
  ultimately show ?thesis
    unfolding prints_only_def by blast
qed

lemma print_headers_prints:
  "print_headers hs w = (r, w') \<Longrightarrow> prints_only w w'"
proof (induction hs arbitrary: w)
  case Nil
  then show ?case by simp
next
  case (Cons h hs)
  obtain name val where h: "h = (name, val)" by (cases h)
  show ?case
  proof (cases "utf8_valid name \<and> utf8_valid val")
    case True
    with Cons.prems h have "print_headers hs (emit (Print (name @ '': '' @ val)) w) = (r, w')"
      by simp
    from Cons.IH [OF this] show ?thesis
      by (rule prints_only_emit [rotated]) (simp add: is_print_def)
  next
    case False
    with Cons.prems h show ?thesis by auto
  qed
qed

lemma handle_response_prints:
  assumes "handle_response hs sid w = (r, w')"
  shows "prints_only w w'"
proof (cases "print_headers hs w")
  case (Pair r1 w1)
  note p = print_headers_prints [OF Pair]
  show ?thesis
  proof (cases r1)
    case (Inl e)
    with assms Pair p show ?thesis
      by (simp add: handle_response_def)
  next
    case (Inr u)
    with assms Pair have "w' = emit (Print []) w1"
      by (simp add: handle_response_def)
    with p show ?thesis
      by (simp add: prints_only_emit_end is_print_def)
  qed
qed

lemmas handle_events_induct =
  handle_events.induct [case_names empty response data reset ended other]

lemma handle_events_prints:
  "handle_events events v w = (r, w') \<Longrightarrow> prints_only w w'"
proof (induction events v w rule: handle_events_induct)
  case (empty isVerbose w)
  then show ?case by simp
next
  case (response stream_id headers events isVerbose w)
  show ?case
  proof (cases "handle_response headers stream_id w")
    case (Pair r1 w1)
    note hr = handle_response_prints [OF Pair]
    show ?thesis
    proof (cases r1)
      case (Inl e)
      with response Pair hr show ?thesis by simp
    next
      case (Inr u)
      with response(2) Pair have "handle_events events isVerbose w1 = (r, w')" by simp
      with response(1) Pair Inr have "prints_only w1 w'" by simp
      with hr show ?thesis by (rule prints_only_trans)
    qed
  qed
next
  case (data stream_id d events isVerbose w)
  then have "prints_only (emit (Print []) (emit (PrintData d) w)) w'" by simp
  then have "prints_only (emit (PrintData d) w) w'"
    by (rule prints_only_emit [rotated]) (simp add: is_print_def)
  then show ?case
    by (rule prints_only_emit [rotated]) (simp add: is_print_def)
next
  case (reset stream_id error_code events isVerbose w)
  then show ?case by simp
next
  case (ended stream_id events isVerbose w)
  show ?case
  proof (cases isVerbose)
    case True
    with ended have "prints_only (emit (PrintInfo (StreamEnded stream_id)) w) w'" by simp
    then show ?thesis
      by (rule prints_only_emit [rotated]) (simp add: is_print_def)
  next
    case False
    with ended show ?thesis by simp
  qed
next
  case (other s events isVerbose w)
  show ?case
  proof (cases isVerbose)
    case True
    with other have "prints_only (emit (PrintInfo (OtherEvent s)) w) w'" by simp
    then show ?thesis
      by (rule prints_only_emit [rotated]) (simp add: is_print_def)
  next
    case False
    with other show ?thesis by simp
  qed
qed

lemma recv_result:
  "\<exists>r. recv w = (r, w\<lparr>incoming := tl (incoming w), trace := trace w @ [Recv r]\<rparr>)
        \<and> (r = Inl SocketTimeout \<or> (\<exists>d. r = Inr d))"
proof (cases "incoming w")
  case Nil
  then have "w\<lparr>incoming := tl (incoming w), trace := trace w @ [x]\<rparr> = emit x w" for x
    by (simp add: emit_def)
  with Nil show ?thesis
    by (cases "peer_end w") (simp_all add: recv_def)
next
  case (Cons a rest)
  then show ?thesis
    by (cases a) (simp_all add: recv_def emit_def)
qed

lemma getData_body_cases:
  assumes "(case recv w of
              (Inl e, w') \<Rightarrow>
                (if e = SocketTimeout then Some (Inr events, w') else Some (Inl e, w'))
            | (Inr newdata, w') \<Rightarrow>
                (case receive_data dec newdata w' of
                   (Inl e, w'') \<Rightarrow>
                     (if e = SocketTimeout then Some (Inr events, w'') else Some (Inl e, w''))
                 | (Inr new_events, w'') \<Rightarrow>
                     (if ends_with_StreamEnded (events @ new_events)
                      then Some (Inr (events @ new_events), w'')
                      else loop dec (events @ new_events) w''))) = Some y"
  obtains
    (timeout) "y = (Inr events,
                    w\<lparr>incoming := tl (incoming w), trace := trace w @ [Recv (Inl SocketTimeout)]\<rparr>)"
  | (malformed) d where
      "dec (trace w @ [Recv (Inr d)]) d = None"
      "y = (Inl ProtocolError,
            w\<lparr>incoming := tl (incoming w), trace := trace w @ [Recv (Inr d), Feed d]\<rparr>)"
  | (ended) d evs where
      "dec (trace w @ [Recv (Inr d)]) d = Some evs"
      "ends_with_StreamEnded (events @ evs)"
      "y = (Inr (events @ evs),
            w\<lparr>incoming := tl (incoming w), trace := trace w @ [Recv (Inr d), Feed d]\<rparr>)"
  | (again) d evs where
      "dec (trace w @ [Recv (Inr d)]) d = Some evs"
      "\<not> ends_with_StreamEnded (events @ evs)"
      "loop dec (events @ evs)
         (w\<lparr>incoming := tl (incoming w), trace := trace w @ [Recv (Inr d), Feed d]\<rparr>) = Some y"
proof -
  from recv_result [of w] obtain r where
    r: "recv w = (r, w\<lparr>incoming := tl (incoming w), trace := trace w @ [Recv r]\<rparr>)"
       "r = Inl SocketTimeout \<or> (\<exists>d. r = Inr d)"
    by blast
  from r(2) show thesis
  proof
    assume "r = Inl SocketTimeout"
    with assms r(1) show thesis
      by (intro timeout) simp
  next
    assume "\<exists>d. r = Inr d"
    then obtain d where d: "r = Inr d" ..
    show thesis
    proof (cases "dec (trace w @ [Recv (Inr d)]) d")
      case None
      with assms r(1) d show thesis
        by (intro malformed [of d]) (simp_all add: receive_data_def emit_def)
    next
      case (Some evs)
      show thesis
      proof (cases "ends_with_StreamEnded (events @ evs)")
        case True
        with assms r(1) d Some show thesis
          by (intro ended [of d evs]) (simp_all add: receive_data_def emit_def)
      next
        case False
        with assms r(1) d Some show thesis
          by (intro again [of d evs]) (simp_all add: receive_data_def emit_def)
      qed
    qed
  qed
qed

subsection \<open>The runs of the event-drain loop\<close>

lemma drain_trace_timeout:
  assumes "\<not> ends_with_StreamEnded events"
  shows "drain_trace dec events w
           (Inr events,
            w\<lparr>incoming := tl (incoming w), trace := trace w @ [Recv (Inl SocketTimeout)]\<rparr>)
           [Recv (Inl SocketTimeout)]"
  using assms by (simp add: drain_trace_def is_Recv_def)

lemma drain_trace_malformed:
  assumes "\<not> ends_with_StreamEnded events"
  shows "drain_trace dec events w
           (Inl ProtocolError,
            w\<lparr>incoming := tl (incoming w), trace := trace w @ [Recv (Inr d), Feed d]\<rparr>)
           [Recv (Inr d), Feed d]"
proof -
  have "take n [Recv (Inr d), Feed d] = [] \<or> take n [Recv (Inr d), Feed d] = [Recv (Inr d)]"
    if "n < 2" for n
    using that by (cases n) simp_all
  then have "\<not> ends_with_StreamEnded (events @ decoded dec (trace w) (take n [Recv (Inr d), Feed d]))"
    if "n < 2" for n
    using that assms by force
  then show ?thesis
    by (simp add: drain_trace_def is_Recv_def is_Feed_def)
qed

lemma drain_trace_ended:
  assumes "\<not> ends_with_StreamEnded events"
      and "dec (trace w @ [Recv (Inr d)]) d = Some evs"
      and "ends_with_StreamEnded (events @ evs)"
  shows "drain_trace dec events w
           (Inr (events @ evs),
            w\<lparr>incoming := tl (incoming w), trace := trace w @ [Recv (Inr d), Feed d]\<rparr>)
           [Recv (Inr d), Feed d]"
proof -
  have "take n [Recv (Inr d), Feed d] = [] \<or> take n [Recv (Inr d), Feed d] = [Recv (Inr d)]"
    if "n < 2" for n
    using that by (cases n) simp_all
  then have "\<not> ends_with_StreamEnded (events @ decoded dec (trace w) (take n [Recv (Inr d), Feed d]))"
    if "n < 2" for n
    using that assms(1) by force
  moreover have "\<exists>p da. [Recv (Inr d), Feed d] = p @ [Recv (Inr da), Feed da]"
    by (intro exI [of _ "[]"] exI [of _ d]) simp
  ultimately show ?thesis
    using assms(2,3) by (simp add: drain_trace_def is_Recv_def is_Feed_def)
qed

lemma drain_trace_again:
  assumes "\<not> ends_with_StreamEnded events"
      and "dec (trace w @ [Recv (Inr d)]) d = Some evs"
      and "drain_trace dec (events @ evs)
             (w\<lparr>incoming := tl (incoming w), trace := trace w @ [Recv (Inr d), Feed d]\<rparr>) y new"
  shows "drain_trace dec events w y (Recv (Inr d) # Feed d # new)"
proof -
  let ?w2 = "w\<lparr>incoming := tl (incoming w), trace := trace w @ [Recv (Inr d), Feed d]\<rparr>"
  let ?new = "Recv (Inr d) # Feed d # new"
  from assms(3) have
    w: "snd y = ?w2\<lparr>incoming := incoming (snd y), trace := trace ?w2 @ new\<rparr>" and
    k: "list_all (\<lambda>x. is_Recv x \<or> is_Feed x) new" and
    b: "\<And>n. n < length new \<Longrightarrow>
          \<not> ends_with_StreamEnded ((events @ evs) @ decoded dec (trace ?w2) (take n new))" and
    r: "\<And>es. fst y = Inr es \<Longrightarrow>
          es = (events @ evs) @ decoded dec (trace ?w2) new
          \<and> (if ends_with_StreamEnded es then (\<exists>p d. new = p @ [Recv (Inr d), Feed d])
             else (\<exists>p. new = p @ [Recv (Inl SocketTimeout)]))"
    unfolding drain_trace_def by blast+
  have dn: "decoded dec (trace w) (Recv (Inr d) # Feed d # t)
              = evs @ decoded dec (trace w @ [Recv (Inr d), Feed d]) t" for t
    using assms(2) by simp
  have w': "snd y = w\<lparr>incoming := incoming (snd y), trace := trace w @ ?new\<rparr>"
    by (subst w) simp
  have k': "list_all (\<lambda>x. is_Recv x \<or> is_Feed x) ?new"
    using k by (simp add: is_Recv_def is_Feed_def)
  have b': "\<not> ends_with_StreamEnded (events @ decoded dec (trace w) (take n ?new))"
    if "n < length ?new" for n
  proof (cases n)
    case 0
    with assms(1) show ?thesis by simp
  next
    case (Suc m)
    show ?thesis
    proof (cases m)
      case 0
      with Suc assms(1) show ?thesis by simp
    next
      case (Suc k)
      with \<open>n = Suc m\<close> that have "k < length new" by simp
      from b [OF this] show ?thesis
        using \<open>n = Suc m\<close> Suc dn by simp
    qed
  qed
  have r': "es = events @ decoded dec (trace w) ?new
          \<and> (if ends_with_StreamEnded es then (\<exists>p d. ?new = p @ [Recv (Inr d), Feed d])
             else (\<exists>p. ?new = p @ [Recv (Inl SocketTimeout)]))"
    if "fst y = Inr es" for es
  proof -
    from r [OF that] have
      e: "es = (events @ evs) @ decoded dec (trace ?w2) new" and
      f: "if ends_with_StreamEnded es then (\<exists>p d. new = p @ [Recv (Inr d), Feed d])
          else (\<exists>p. new = p @ [Recv (Inl SocketTimeout)])"
      by blast+
    from e have e': "es = events @ decoded dec (trace w) ?new"
      using dn by simp
    show ?thesis
    proof (cases "ends_with_StreamEnded es")
      case True
      with f obtain p d' where "new = p @ [Recv (Inr d'), Feed d']" by auto
      then have "?new = (Recv (Inr d) # Feed d # p) @ [Recv (Inr d'), Feed d']" by simp
      then have "\<exists>p da. ?new = p @ [Recv (Inr da), Feed da]" by blast
      with True e' show ?thesis by simp
    next
      case False
      with f obtain p where "new = p @ [Recv (Inl SocketTimeout)]" by auto
      then have "?new = (Recv (Inr d) # Feed d # p) @ [Recv (Inl SocketTimeout)]" by simp
      then have "\<exists>p. ?new = p @ [Recv (Inl SocketTimeout)]" by blast
      with False e' show ?thesis by simp
    qed
  qed
  from w' k' b' r' show ?thesis
    unfolding drain_trace_def by blast
qed

lemma getData_loop_drain:
  assumes "getData_loop dec events w = Some y"
  shows "\<not> ends_with_StreamEnded events \<longrightarrow> (\<exists>new. drain_trace dec events w y new)"
proof (rule getData_loop.raw_induct
    [where P = "\<lambda>dec events w y.
       \<not> ends_with_StreamEnded events \<longrightarrow> (\<exists>new. drain_trace dec events w y new)",
     OF _ assms])
  fix loop :: "decoder \<Rightarrow> event list \<Rightarrow> world \<Rightarrow> ((py_error + event list) \<times> world) option"
  fix dec events w y
  assume IH: "\<And>dec events w y. loop dec events w = Some y \<Longrightarrow>
                \<not> ends_with_StreamEnded events \<longrightarrow> (\<exists>new. drain_trace dec events w y new)"
  assume step: "(case recv w of
              (Inl e, w') \<Rightarrow>
                (if e = SocketTimeout then Some (Inr events, w') else Some (Inl e, w'))
            | (Inr newdata, w') \<Rightarrow>
                (case receive_data dec newdata w' of
                   (Inl e, w'') \<Rightarrow>
                     (if e = SocketTimeout then Some (Inr events, w'') else Some (Inl e, w''))
                 | (Inr new_events, w'') \<Rightarrow>
                     (if ends_with_StreamEnded (events @ new_events)
                      then Some (Inr (events @ new_events), w'')
                      else loop dec (events @ new_events) w''))) = Some y"
  show "\<not> ends_with_StreamEnded events \<longrightarrow> (\<exists>new. drain_trace dec events w y new)"
  proof
    assume ne: "\<not> ends_with_StreamEnded events"
    from step show "\<exists>new. drain_trace dec events w y new"
    proof (cases rule: getData_body_cases)
      case timeout
      with drain_trace_timeout [where dec = dec, OF ne] show ?thesis by blast
    next
      case (malformed d)
      with drain_trace_malformed [where dec = dec, OF ne] show ?thesis by blast
    next
      case (ended d evs)
      with drain_trace_ended [where dec = dec, OF ne ended(1,2)] show ?thesis by blast
    next
      case (again d evs)
      from IH [OF again(3)] again(2) obtain new where
        "drain_trace dec (events @ evs)
           (w\<lparr>incoming := tl (incoming w), trace := trace w @ [Recv (Inr d), Feed d]\<rparr>) y new"
        by blast
      from drain_trace_again [where dec = dec, OF ne again(1) this] show ?thesis ..
    qed
  qed
qed

lemma getData_loop_silent_returns:
  "peer_end w = Silent \<Longrightarrow> getData_loop dec events w \<noteq> None"
proof (induction "incoming w" arbitrary: w events)
  case Nil
  then have "recv w = (Inl SocketTimeout, emit (Recv (Inl SocketTimeout)) w)"
    by (simp add: recv_def)
  then show ?case
    by (subst getData_loop.simps) simp
next
  case (Cons a rest)
  show ?case
  proof (cases a)
    case TimesOut
    with Cons(2) have
      "recv w = (Inl SocketTimeout, emit (Recv (Inl SocketTimeout)) (w\<lparr>incoming := rest\<rparr>))"
      by (simp add: recv_def flip: Cons(2))
    then show ?thesis
      by (subst getData_loop.simps) simp
  next
    case (Chunk d)
    define w1 where "w1 = emit (Recv (Inr d)) (w\<lparr>incoming := rest\<rparr>)"
    from Chunk Cons(2) have r: "recv w = (Inr d, w1)"
      by (simp add: recv_def w1_def flip: Cons(2))
    show ?thesis
    proof (cases "dec (trace w1) d")
      case None
      with r show ?thesis
        by (subst getData_loop.simps) (simp add: receive_data_def)
    next
      case (Some evs)
      have "rest = incoming (emit (Feed d) w1)" "peer_end (emit (Feed d) w1) = Silent"
        using Cons(3) by (simp_all add: w1_def)
      from Cons(1) [OF this] have "getData_loop dec (events @ evs) (emit (Feed d) w1) \<noteq> None" .
      with r Some show ?thesis
        by (subst getData_loop.simps) (simp add: receive_data_def)
    qed
  qed
qed

text \<open>
  Every run of the loop read backwards: against a peer that falls silent \<open>getData\<close>
  returns, and whenever it returns events, they are the events decoded along the actions \<open>new\<close> it performed; at no earlier
  point of \<open>new\<close> did the decoded events end with \<open>StreamEnded\<close>; if the returned events
  end with \<open>StreamEnded\<close>, the last action was the decoder call on the bytes of the last
  read, with no further read; otherwise the last action was a read that timed out.
\<close>

theorem getData_stops_at_StreamEnded:
  "(peer_end w = Silent \<longrightarrow> getData dec w \<noteq> None)
   \<and> (\<forall>events w'. getData dec w = Some (Inr events, w') \<longrightarrow>
        (\<exists>new. trace w' = trace w @ new
           \<and> events = decoded dec (trace w) new
           \<and> (\<forall>n<length new. \<not> ends_with_StreamEnded (decoded dec (trace w) (take n new)))
           \<and> (if ends_with_StreamEnded events
               then (\<exists>p d. new = p @ [Recv (Inr d), Feed d])
               else (\<exists>p. new = p @ [Recv (Inl SocketTimeout)]))))"
proof (intro conjI allI impI)
  assume "peer_end w = Silent"
  then show "getData dec w \<noteq> None"
    by (simp add: getData_def getData_loop_silent_returns)
next
  fix events w'
  assume "getData dec w = Some (Inr events, w')"
  then have "getData_loop dec [] w = Some (Inr events, w')"
    by (simp add: getData_def)
  from getData_loop_drain [OF this] obtain new where
    "drain_trace dec [] w (Inr events, w') new"
    by (auto simp: ends_with_StreamEnded_def)
  then have
    w: "w' = w\<lparr>incoming := incoming w', trace := trace w @ new\<rparr>" and
    b: "\<forall>n<length new. \<not> ends_with_StreamEnded (decoded dec (trace w) (take n new))" and
    e: "events = decoded dec (trace w) new" and
    f: "if ends_with_StreamEnded events then (\<exists>p d. new = p @ [Recv (Inr d), Feed d])
        else (\<exists>p. new = p @ [Recv (Inl SocketTimeout)])"
    unfolding drain_trace_def by simp_all
  from w have "trace w' = trace w @ new"
    by (metis (no_types, lifting) world.select_convs(6) world.surjective world.update_convs(1,6))
  with b e f show "\<exists>new. trace w' = trace w @ new
           \<and> events = decoded dec (trace w) new
           \<and> (\<forall>n<length new. \<not> ends_with_StreamEnded (decoded dec (trace w) (take n new)))
           \<and> (if ends_with_StreamEnded events
               then (\<exists>p d. new = p @ [Recv (Inr d), Feed d])
               else (\<exists>p. new = p @ [Recv (Inl SocketTimeout)]))"
    by blast
qed

text \<open>
  The same on a peer whose second chunk ends the stream: the third chunk stays unread.
\<close>

theorem getData_stops_at_StreamEnded_witness:
  "getData fake_decoder (peer [Chunk ''HD'', Chunk ''E'', Chunk ''R''] Silent) \<noteq> None
   \<and> (\<exists>new. [Recv (Inr ''HD''), Feed ''HD'', Recv (Inr ''E''), Feed ''E''] = [] @ new
        \<and> [ResponseReceived 1 [('':status'', ''200'')], DataReceived 1 ''hello'', StreamEnded 1]
            = decoded fake_decoder [] new
        \<and> (\<forall>n<length new. \<not> ends_with_StreamEnded (decoded fake_decoder [] (take n new)))
        \<and> (\<exists>p d. new = p @ [Recv (Inr d), Feed d]))"
proof -
  let ?w = "peer [Chunk ''HD'', Chunk ''E'', Chunk ''R''] Silent"
  let ?w' = "\<lparr>incoming = [Chunk ''R''], peer_end = Silent, connect_failure = None,
             highest_outbound_stream_id = 0, outbound = [],
             trace = [Recv (Inr ''HD''), Feed ''HD'', Recv (Inr ''E''), Feed ''E'']\<rparr>"
  let ?evs = "[ResponseReceived 1 [('':status'', ''200'')], DataReceived 1 ''hello'', StreamEnded 1]"
  have g: "getData fake_decoder ?w = Some (Inr ?evs, ?w')"
    by code_simp
  have s: "peer_end ?w = Silent" "trace ?w = []"
    by (simp_all add: peer_def)
  have e: "ends_with_StreamEnded ?evs"
    by (simp add: ends_with_StreamEnded_def is_StreamEnded_def)
  from getData_stops_at_StreamEnded [of ?w fake_decoder] g s e show ?thesis
    by simp
qed

subsection \<open>A stream reset (C5)\<close>

text \<open>
  The loop of \<open>getData\<close> does not look at the events it gathers, except for a final
  \<open>StreamEnded\<close>; a reset does not end it. Once the peer has closed the connection
  every \<open>recv\<close> returns \<open>b''\<close> at once, in which the decoder finds no event, and the
  loop has no way out.
\<close>

lemma getData_closed_peer_never_returns:
  assumes "getData_loop dec events w = Some y"
  shows "\<not> (incoming w = [] \<and> peer_end w = Closed \<and> (\<forall>t. dec t [] = Some [])
            \<and> \<not> ends_with_StreamEnded events)"
proof (rule getData_loop.raw_induct
    [where P = "\<lambda>dec events w y.
       \<not> (incoming w = [] \<and> peer_end w = Closed \<and> (\<forall>t. dec t [] = Some [])
          \<and> \<not> ends_with_StreamEnded events)",
     OF _ assms])
  fix loop :: "decoder \<Rightarrow> event list \<Rightarrow> world \<Rightarrow> ((py_error + event list) \<times> world) option"
  fix dec events w y
  assume IH: "\<And>dec events w y. loop dec events w = Some y \<Longrightarrow>
                \<not> (incoming w = [] \<and> peer_end w = Closed \<and> (\<forall>t. dec t [] = Some [])
                   \<and> \<not> ends_with_StreamEnded events)"
  assume step: "(case recv w of
              (Inl e, w') \<Rightarrow>
                (if e = SocketTimeout then Some (Inr events, w') else Some (Inl e, w'))
            | (Inr newdata, w') \<Rightarrow>
                (case receive_data dec newdata w' of
                   (Inl e, w'') \<Rightarrow>
                     (if e = SocketTimeout then Some (Inr events, w'') else Some (Inl e, w''))
                 | (Inr new_events, w'') \<Rightarrow>
                     (if ends_with_StreamEnded (events @ new_events)
                      then Some (Inr (events @ new_events), w'')
                      else loop dec (events @ new_events) w''))) = Some y"
  show "\<not> (incoming w = [] \<and> peer_end w = Closed \<and> (\<forall>t. dec t [] = Some [])
          \<and> \<not> ends_with_StreamEnded events)"
  proof
    assume a: "incoming w = [] \<and> peer_end w = Closed \<and> (\<forall>t. dec t [] = Some [])
                 \<and> \<not> ends_with_StreamEnded events"
    then have r: "recv w = (Inr [], emit (Recv (Inr [])) w)"
      by (simp add: recv_def)
    from a have d: "receive_data dec [] (emit (Recv (Inr [])) w)
                      = (Inr [], emit (Feed []) (emit (Recv (Inr [])) w))"
      by (simp add: receive_data_def)
    from step a r d have "loop dec events (emit (Feed []) (emit (Recv (Inr [])) w)) = Some y"
      by simp
    from IH [OF this] a show False
      by (simp add: emit_def)
  qed
qed

lemma getData_closed_peer_loops:
  "incoming w = [] \<Longrightarrow> peer_end w = Closed \<Longrightarrow> (\<forall>t. dec t [] = Some [])
     \<Longrightarrow> \<not> ends_with_StreamEnded events \<Longrightarrow> getData_loop dec events w = None"
  using getData_closed_peer_never_returns [of dec events w]
  by (cases "getData_loop dec events w") auto

text \<open>
  C5 on a peer that answers a request with a reset of the stream and then closes the
  connection: the claim has the dispatch fail with \<open>stream reset: 8\<close> and not hang; the
  program never leaves the drain loop, so it reports nothing and never returns.
\<close>

theorem stream_reset_then_close_never_returns:
  "sendSmuggledRequest fake_decoder hs (example_args False []) (peer [Chunk ''R''] Closed) = None"
proof -
  let ?w2 = "sendall_data_to_send (send_headers 1 hs True (peer [Chunk ''R''] Closed))"
  let ?w3 = "emit (Feed ''R'') (emit (Recv (Inr ''R'')) (?w2\<lparr>incoming := []\<rparr>))"
  have n: "get_next_available_stream_id (peer [Chunk ''R''] Closed) = Inr 1"
    by code_simp
  have a: "arg_data (example_args False []) = None"
    by (simp add: example_args_def)
  have r: "recv ?w2 = (Inr ''R'', emit (Recv (Inr ''R'')) (?w2\<lparr>incoming := []\<rparr>))"
    by (simp add: recv_def peer_def sendall_data_to_send_def send_headers_def emit_def)
  have d: "receive_data fake_decoder ''R'' (emit (Recv (Inr ''R'')) (?w2\<lparr>incoming := []\<rparr>))
             = (Inr [StreamReset 1 8], ?w3)"
    by (simp add: receive_data_def fake_decoder_def)
  have e: "\<not> ends_with_StreamEnded ([] @ [StreamReset 1 8])"
    by (simp add: ends_with_StreamEnded_def is_StreamEnded_def)
  have "getData_loop fake_decoder [] ?w2 = getData_loop fake_decoder ([] @ [StreamReset 1 8]) ?w3"
    by (subst getData_loop.simps) (simp only: r d e prod.case sum.case if_False)
  also have "\<dots> = None"
    using e
    by (intro getData_closed_peer_loops)
      (simp_all add: emit_def peer_def sendall_data_to_send_def send_headers_def fake_decoder_def)
  finally have "getData fake_decoder ?w2 = None"
    by (simp add: getData_def)
  with n a show ?thesis
    by (simp add: sendSmuggledRequest_def)
qed

text \<open>
  When the drain does return, the reset is reported unless an event before it makes
  the handler raise: here the header of a response that came before the reset is not
  valid UTF-8, \<open>handle_response\<close> raises \<open>UnicodeDecodeError\<close> on it, and the reset with
  its error code 8 is never reached.
\<close>

theorem undecodable_header_preempts_reset:
  "handle_events [ResponseReceived 1 [(''x-trace'', [CHR 0xFF])], StreamReset 1 8] False
     (peer [] Silent)
   = (Inl UnicodeDecodeError, peer [] Silent)"
  by code_simp

text \<open>Handling stops at the first reset, in the state reached by the events before it.\<close>

lemma handle_events_reset:
  assumes "handle_events pre isVerbose w = (Inr (), w')"
  shows "handle_events (pre @ StreamReset stream_id error_code # post) isVerbose w
           = (Inl (RuntimeError (''stream reset: '' @ str_of_nat error_code)), w')"
  using assms
proof (induction pre isVerbose w rule: handle_events_induct)
  case (empty isVerbose w)
  then show ?case by simp
next
  case (response sid headers events isVerbose w)
  show ?case
  proof (cases "handle_response headers sid w")
    case (Pair r1 w1)
    show ?thesis
    proof (cases r1)
      case (Inl e)
      with response(2) Pair show ?thesis by simp
    next
      case (Inr u)
      with response(2) Pair have "handle_events events isVerbose w1 = (Inr (), w')" by simp
      with response(1) Pair Inr show ?thesis by simp
    qed
  qed
next
  case (data sid d events isVerbose w)
  then show ?case by simp
next
  case (reset sid error_code events isVerbose w)
  then show ?case by simp
next
  case (ended sid events isVerbose w)
  then show ?case by simp
next
  case (other s events isVerbose w)
  then show ?case by simp
qed

text \<open>
  When the drain returns events that contain a \<open>StreamReset\<close> and the events before
  it are handled without an exception, \<open>sendSmuggledRequest\<close> fails with the error
  \<open>stream reset: <error code>\<close> of that reset, in the state reached by handling the
  events before it: after the drain it has only printed, and no event after the reset
  is handled.
\<close>

theorem stream_reset_aborts_request:
  assumes "get_next_available_stream_id w = Inr stream_id"
      and "arg_data a = None \<or> arg_data a = Some []"
      and "getData dec (sendall_data_to_send
                          (send_headers stream_id hs (arg_data a = None) w))
             = Some (Inr (pre @ StreamReset sid error_code # post), w1)"
      and "handle_events pre (arg_verbose a) w1 = (Inr (), w2)"
  shows "sendSmuggledRequest dec hs a w
           = Some (Inl (RuntimeError (''stream reset: '' @ str_of_nat error_code)), w2)
         \<and> prints_only w1 w2"
proof
  from assms(2) have "\<not> (arg_data a \<noteq> None \<and> arg_data a \<noteq> Some [])"
    by auto
  with assms(1,3) handle_events_reset [OF assms(4), of sid error_code post]
  show "sendSmuggledRequest dec hs a w
           = Some (Inl (RuntimeError (''stream reset: '' @ str_of_nat error_code)), w2)"
    by (simp add: sendSmuggledRequest_def Let_def)
  from assms(4) show "prints_only w1 w2"
    by (rule handle_events_prints)
qed

text \<open>
  The same on a peer that answers with a response, a data chunk, a reset and one more
  data chunk, and then stays connected and silent: the last chunk is not printed.
\<close>

theorem stream_reset_aborts_request_witness:
  "sendSmuggledRequest fake_decoder [] (example_args False []) (peer [Chunk ''HDRD''] Silent)
     = Some (Inl (RuntimeError ''stream reset: 8''),
             (peer [] Silent)
               \<lparr>highest_outbound_stream_id := 1,
                trace := [SendFrames [HeadersFrame 1 [] True], Recv (Inr ''HDRD''),
                          Feed ''HDRD'', Recv (Inl SocketTimeout), Print '':status: 200'',
                          Print [], PrintData ''hello'', Print []]\<rparr>)"
proof -
  let ?w = "peer [Chunk ''HDRD''] Silent"
  let ?a = "example_args False []"
  let ?pre = "[ResponseReceived 1 [('':status'', ''200'')], DataReceived 1 ''hello'']"
  let ?w1 = "(peer [] Silent)
               \<lparr>highest_outbound_stream_id := 1,
                trace := [SendFrames [HeadersFrame 1 [] True], Recv (Inr ''HDRD''),
                          Feed ''HDRD'', Recv (Inl SocketTimeout)]\<rparr>"
  let ?w2 = "(peer [] Silent)
               \<lparr>highest_outbound_stream_id := 1,
                trace := [SendFrames [HeadersFrame 1 [] True], Recv (Inr ''HDRD''),
                          Feed ''HDRD'', Recv (Inl SocketTimeout), Print '':status: 200'',
                          Print [], PrintData ''hello'', Print []]\<rparr>"
  have n: "get_next_available_stream_id ?w = Inr 1"
    by code_simp
  have d: "arg_data ?a = None \<or> arg_data ?a = Some []"
    by (simp add: example_args_def)
  have g: "getData fake_decoder (sendall_data_to_send (send_headers 1 [] (arg_data ?a = None) ?w))
             = Some (Inr (?pre @ StreamReset 1 8 # [DataReceived 1 ''hello'']), ?w1)"
    by code_simp
  have h: "handle_events ?pre (arg_verbose ?a) ?w1 = (Inr (), ?w2)"
    by code_simp
  have s: "str_of_nat 8 = ''8''"
    by code_simp
  from stream_reset_aborts_request [OF n d g h] s show ?thesis
    by simp
qed

subsection \<open>Steps that leave the HTTP/2 connection object alone\<close>

lemma io_only_refl: "io_only P w w"
proof -
  have "w = w\<lparr>incoming := incoming w, trace := trace w @ []\<rparr>" by simp
  then show ?thesis
    unfolding io_only_def by (intro exI [of _ "[]"]) simp
qed

lemma io_only_fields:
  assumes "io_only P w w'"
  shows "highest_outbound_stream_id w' = highest_outbound_stream_id w"
    and "outbound w' = outbound w"
    and "peer_end w' = peer_end w"
    and "connect_failure w' = connect_failure w"
    and "\<exists>new. trace w' = trace w @ new \<and> list_all P new"
proof -
  from assms obtain new where
    n: "w' = w\<lparr>incoming := incoming w', trace := trace w @ new\<rparr>" "list_all P new"
    unfolding io_only_def by blast
  from n(1) show "highest_outbound_stream_id w' = highest_outbound_stream_id w"
    by (metis world.select_convs(4) world.surjective world.update_convs(1,6))
  from n(1) show "outbound w' = outbound w"
    by (metis world.select_convs(5) world.surjective world.update_convs(1,6))
  from n(1) show "peer_end w' = peer_end w"
    by (metis world.select_convs(2) world.surjective world.update_convs(1,6))
  from n(1) show "connect_failure w' = connect_failure w"
    by (metis world.select_convs(3) world.surjective world.update_convs(1,6))
  from n(1) have "trace w' = trace w @ new"
    by (metis world.select_convs(6) world.surjective world.update_convs(1,6))
  with n(2) show "\<exists>new. trace w' = trace w @ new \<and> list_all P new"
    by blast
qed

lemma io_only_trans:
  assumes "io_only P w w1" and "io_only P w1 w2"
  shows "io_only P w w2"
proof -
  from assms obtain n1 n2 where
    n: "w1 = w\<lparr>incoming := incoming w1, trace := trace w @ n1\<rparr>" "list_all P n1"
       "w2 = w1\<lparr>incoming := incoming w2, trace := trace w1 @ n2\<rparr>" "list_all P n2"
    unfolding io_only_def by blast
  from n(1) have t: "trace w1 = trace w @ n1"
    by (metis world.select_convs(6) world.surjective world.update_convs(1,6))
  from n(1,3) have "w2 = w\<lparr>incoming := incoming w2, trace := trace w1 @ n2\<rparr>"
    by (metis (no_types, lifting) world.surjective world.update_convs(1,6))
  with t have "w2 = w\<lparr>incoming := incoming w2, trace := trace w @ (n1 @ n2)\<rparr>"
    by simp
  moreover from n(2,4) have "list_all P (n1 @ n2)"
    by simp
  ultimately show ?thesis
    unfolding io_only_def by blast
qed

lemma io_only_mono:
  assumes "io_only P w w'" and "\<And>x. P x \<Longrightarrow> Q x"
  shows "io_only Q w w'"
proof -
  from assms(1) obtain new where
    n: "w' = w\<lparr>incoming := incoming w', trace := trace w @ new\<rparr>" "list_all P new"
    unfolding io_only_def by blast
  from n(2) assms(2) have "list_all Q new"
    by (simp add: list_all_iff)
  with n(1) show ?thesis
    unfolding io_only_def by blast
qed

lemma io_only_emit:
  assumes "P x"
  shows "io_only P w (emit x w)"
proof -
  have "emit x w = w\<lparr>incoming := incoming (emit x w), trace := trace w @ [x]\<rparr>"
    by (simp add: emit_def)
  moreover from assms have "list_all P [x]" by simp
  ultimately show ?thesis
    unfolding io_only_def by blast
qed

lemma prints_only_io:
  assumes "prints_only w w'"
  shows "io_only silent_io w w'"
proof -
  from assms obtain new where
    n: "w' = w\<lparr>trace := trace w @ new\<rparr>" "list_all is_print new"
    unfolding prints_only_def by blast
  from n(1) have "w' = w\<lparr>incoming := incoming w', trace := trace w @ new\<rparr>"
    by simp
  moreover from n(2) have "list_all silent_io new"
    by (auto simp: list_all_iff silent_io_def)
  ultimately show ?thesis
    unfolding io_only_def by blast
qed

lemma opened_ids_append: "opened_ids (a @ b) = opened_ids a @ opened_ids b"
  by (induction a rule: opened_ids.induct) simp_all

lemma opened_ids_silent: "list_all silent_io new \<Longrightarrow> opened_ids new = []"
  by (induction new rule: opened_ids.induct)
     (simp_all add: silent_io_def is_Recv_def is_Feed_def is_print_def)

lemma io_only_opened_ids:
  assumes "io_only silent_io w w'"
  shows "opened_ids (trace w') = opened_ids (trace w)"
  using io_only_fields(5) [OF assms]
  by (auto simp: opened_ids_append opened_ids_silent)

lemma getData_io:
  assumes "getData dec w = Some (r, w')"
  shows "io_only silent_io w w'"
proof -
  from assms have "getData_loop dec [] w = Some (r, w')"
    by (simp add: getData_def)
  from getData_loop_drain [OF this] obtain new where
    "drain_trace dec [] w (r, w') new"
    by (auto simp: ends_with_StreamEnded_def)
  then have "w' = w\<lparr>incoming := incoming w', trace := trace w @ new\<rparr>"
    and "list_all (\<lambda>x. is_Recv x \<or> is_Feed x) new"
    unfolding drain_trace_def by simp_all
  moreover from this(2) have "list_all silent_io new"
    by (auto simp: list_all_iff silent_io_def)
  ultimately show ?thesis
    unfolding io_only_def by blast
qed

subsection \<open>What the upgrade response loop reads\<close>

lemma upgrade_reads_step:
  assumes "upgrade_reads (data @ d)
             (w\<lparr>incoming := tl (incoming w), trace := trace w @ [Recv (Inr d)]\<rparr>) y chunks"
  shows "upgrade_reads data w y (d # chunks)"
proof (cases "fst y")
  case (Inl e)
  with assms show ?thesis
    by (simp add: upgrade_reads_def)
next
  case (Inr data')
  with assms show ?thesis
    by (auto simp: upgrade_reads_def)
qed

lemma get_upgrade_response_loop_reads:
  assumes "get_upgrade_response_loop data w = Some y"
  shows "\<exists>chunks. upgrade_reads data w y chunks"
proof (rule get_upgrade_response_loop.raw_induct
    [where P = "\<lambda>data w y. \<exists>chunks. upgrade_reads data w y chunks", OF _ assms])
  fix loop :: "bytes \<Rightarrow> world \<Rightarrow> ((py_error + bytes) \<times> world) option"
  fix data w y
  assume IH: "\<And>d v z. loop d v = Some z \<Longrightarrow> \<exists>chunks. upgrade_reads d v z chunks"
  assume step: "(if contains CRLFCRLF data then Some (Inr data, w)
                 else case recv w of (Inl e, w') \<Rightarrow> Some (Inl e, w')
                      | (Inr d, w') \<Rightarrow> loop (data @ d) w') = Some y"
  show "\<exists>chunks. upgrade_reads data w y chunks"
  proof (cases "contains CRLFCRLF data")
    case True
    with step have "y = (Inr data, w)" by simp
    with True have "upgrade_reads data w y []"
      by (simp add: upgrade_reads_def)
    then show ?thesis ..
  next
    case False
    from recv_result [of w] obtain r where
      r: "recv w = (r, w\<lparr>incoming := tl (incoming w), trace := trace w @ [Recv r]\<rparr>)"
         "r = Inl SocketTimeout \<or> (\<exists>d. r = Inr d)"
      by blast
    from r(2) show ?thesis
    proof
      assume t: "r = Inl SocketTimeout"
      with step False r(1) have
        "y = (Inl SocketTimeout,
              w\<lparr>incoming := tl (incoming w), trace := trace w @ [Recv (Inl SocketTimeout)]\<rparr>)"
        by simp
      then have "upgrade_reads data w y []"
        by (simp add: upgrade_reads_def)
      then show ?thesis ..
    next
      assume "\<exists>d. r = Inr d"
      then obtain d where d: "r = Inr d" ..
      with step False r(1) have
        "loop (data @ d) (w\<lparr>incoming := tl (incoming w), trace := trace w @ [Recv (Inr d)]\<rparr>)
           = Some y"
        by simp
      from IH [OF this] obtain chunks where
        "upgrade_reads (data @ d)
           (w\<lparr>incoming := tl (incoming w), trace := trace w @ [Recv (Inr d)]\<rparr>) y chunks" ..
      then have "upgrade_reads data w y (d # chunks)"
        by (rule upgrade_reads_step)
      then show ?thesis ..
    qed
  qed
qed

lemma upgrade_reads_io:
  assumes "upgrade_reads data w (r, w') chunks"
  shows "io_only silent_io w w'"
proof -
  have a: "list_all silent_io (map (\<lambda>d. Recv (Inr d)) chunks)"
    by (simp add: list_all_iff silent_io_def is_Recv_def)
  then have b: "list_all silent_io (map (\<lambda>d. Recv (Inr d)) chunks @ [Recv (Inl SocketTimeout)])"
    by (simp add: silent_io_def is_Recv_def)
  show ?thesis
  proof (cases r)
    case (Inl e)
    with assms have
      "w' = w\<lparr>incoming := incoming w',
               trace := trace w @ (map (\<lambda>d. Recv (Inr d)) chunks @ [Recv (Inl SocketTimeout)])\<rparr>"
      by (simp add: upgrade_reads_def)
    with b show ?thesis
      unfolding io_only_def by blast
  next
    case (Inr data')
    with assms have
      "w' = w\<lparr>incoming := incoming w', trace := trace w @ map (\<lambda>d. Recv (Inr d)) chunks\<rparr>"
      by (simp add: upgrade_reads_def)
    with a show ?thesis
      unfolding io_only_def by blast
  qed
qed

lemma read_upgrade_response_prints:
  assumes "read_upgrade_response proxy_url data w = (r, w')"
  shows "prints_only w w'"
proof -
  have p: "prints_only w (emit (Print s) w)" for s
    by (rule prints_only_emit_end) (simp_all add: is_print_def)
  from assms have "w' = w \<or> (\<exists>s. w' = emit (Print s) w)"
    by (auto simp: read_upgrade_response_def split: option.splits list.splits if_splits)
  with p show ?thesis
    by auto
qed

lemma get_upgrade_response_io:
  assumes "get_upgrade_response proxy_url w = Some (r, w')"
  shows "io_only silent_io w w'"
proof (cases "get_upgrade_response_loop [] w")
  case None
  with assms show ?thesis
    by (simp add: get_upgrade_response_def)
next
  case (Some y)
  obtain r1 w1 where y: "y = (r1, w1)" by (cases y)
  from get_upgrade_response_loop_reads [OF Some] y obtain chunks where
    "upgrade_reads [] w (r1, w1) chunks" by blast
  then have io: "io_only silent_io w w1"
    by (rule upgrade_reads_io)
  show ?thesis
  proof (cases r1)
    case (Inl e)
    with assms Some y io show ?thesis
      by (simp add: get_upgrade_response_def)
  next
    case (Inr data)
    with assms Some y have "read_upgrade_response proxy_url data w1 = (r, w')"
      by (simp add: get_upgrade_response_def)
    then have "io_only silent_io w1 w'"
      by (intro prints_only_io read_upgrade_response_prints)
    with io show ?thesis
      by (rule io_only_trans)
  qed
qed

subsection \<open>Stream IDs (C9)\<close>

lemma get_next_available_stream_id_next:
  assumes "get_next_available_stream_id w = Inr sid"
  shows "sid = next_id (highest_outbound_stream_id w)"
  using assms
  by (simp add: get_next_available_stream_id_def next_id_def Let_def split: if_splits)

lemma sendSmuggledRequest_effect:
  assumes "sendSmuggledRequest dec hs a w = Some (r, w')" and "outbound w = []"
  shows "(\<exists>e. get_next_available_stream_id w = Inl e \<and> r = Inl e \<and> w' = w)
       \<or> (opened_ids (trace w') = opened_ids (trace w) @ [next_id (highest_outbound_stream_id w)]
          \<and> highest_outbound_stream_id w' = next_id (highest_outbound_stream_id w)
          \<and> outbound w' = []
          \<and> (\<exists>new. trace w' = trace w @ new))"
proof (cases "get_next_available_stream_id w")
  case (Inl e)
  with assms(1) show ?thesis
    by (simp add: sendSmuggledRequest_def)
next
  case (Inr sid)
  note sid = get_next_available_stream_id_next [OF Inr]
  define w2 where
    "w2 = sendall_data_to_send (send_headers sid hs (arg_data a = None) w)"
  have t2: "trace w2 = trace w @ [SendFrames [HeadersFrame sid hs (arg_data a = None)]]"
    and h2: "highest_outbound_stream_id w2 = sid"
    and o2: "outbound w2 = []"
    using assms(2) sid
    by (simp_all add: w2_def sendall_data_to_send_def send_headers_def next_id_def)
  have ids2: "opened_ids (trace w2) = opened_ids (trace w) @ [sid]"
    by (simp add: t2 opened_ids_append)
  have fin: ?thesis
    if "io_only silent_io w2 w'"
  proof -
    from io_only_fields [OF that] io_only_opened_ids [OF that] t2 h2 o2 ids2 sid
    show ?thesis by auto
  qed
  show ?thesis
  proof (cases "arg_data a \<noteq> None \<and> arg_data a \<noteq> Some []")
    case True
    with assms(1) Inr have "w' = w2"
      by (auto simp: sendSmuggledRequest_def w2_def Let_def)
    then show ?thesis
      by (intro fin) (simp add: io_only_refl)
  next
    case False
    show ?thesis
    proof (cases "getData dec w2")
      case None
      with assms(1) Inr False show ?thesis
        by (auto simp: sendSmuggledRequest_def w2_def Let_def)
    next
      case (Some y)
      obtain r3 w3 where y: "y = (r3, w3)" by (cases y)
      from Some y have io3: "io_only silent_io w2 w3"
        by (intro getData_io [of dec w2 r3]) simp
      show ?thesis
      proof (cases r3)
        case (Inl e)
        with assms(1) \<open>get_next_available_stream_id w = Inr sid\<close> False Some y
        have "w' = w3"
          by (auto simp: sendSmuggledRequest_def w2_def Let_def)
        with io3 show ?thesis
          by (intro fin) simp
      next
        case (Inr events)
        with assms(1) \<open>get_next_available_stream_id w = Inr sid\<close> False Some y
        have "handle_events events (arg_verbose a) w3 = (r, w')"
          by (auto simp: sendSmuggledRequest_def w2_def Let_def)
        then have "io_only silent_io w3 w'"
          by (intro prints_only_io handle_events_prints)
        with io3 have "io_only silent_io w2 w'"
          by (rule io_only_trans)
        then show ?thesis
          by (rule fin)
      qed
    qed
  qed
qed

lemma main_requests_ids:
  assumes "main_requests dec a us w = Some (r, w')" and "outbound w = []"
  shows "\<exists>k\<le>length us.
           opened_ids (trace w') = opened_ids (trace w)
             @ map (\<lambda>i. next_id (highest_outbound_stream_id w) + 2 * i) [0..<k]
           \<and> (r = Inr () \<longrightarrow> k = length us)
           \<and> outbound w' = []
           \<and> (\<exists>new. trace w' = trace w @ new)"
  using assms
proof (induction us arbitrary: w)
  case Nil
  then show ?case by simp
next
  case (Cons u us)
  let ?h = "highest_outbound_stream_id w"
  define w0 where "w0 = emit (Print (''[INFO] Requesting - '' @ request_path u)) w"
  have w0: "outbound w0 = []" "opened_ids (trace w0) = opened_ids (trace w)"
    "highest_outbound_stream_id w0 = ?h" "trace w0 = trace w @ [Print (''[INFO] Requesting - '' @ request_path u)]"
    using Cons.prems(2) by (simp_all add: w0_def opened_ids_append)
  let ?call = "sendSmuggledRequest dec (smuggled_request_headers_of a u (request_path u)) a w0"
  show ?case
  proof (cases ?call)
    case None
    with Cons.prems(1) show ?thesis
      by (simp add: w0_def)
  next
    case (Some y)
    obtain r1 w1 where y: "y = (r1, w1)" by (cases y)
    from Some y have call: "?call = Some (r1, w1)" by simp
    from sendSmuggledRequest_effect [OF call w0(1)]
    show ?thesis
    proof
      assume "\<exists>e. get_next_available_stream_id w0 = Inl e \<and> r1 = Inl e \<and> w1 = w0"
      then obtain e where e: "r1 = Inl e" "w1 = w0" by blast
      with Cons.prems(1) call have "r = Inl e" "w' = w0"
        by (simp_all add: w0_def)
      with w0 show ?thesis
        by (intro exI [of _ 0]) simp
    next
      assume b: "opened_ids (trace w1) = opened_ids (trace w0) @ [next_id (highest_outbound_stream_id w0)]
          \<and> highest_outbound_stream_id w1 = next_id (highest_outbound_stream_id w0)
          \<and> outbound w1 = []
          \<and> (\<exists>new. trace w1 = trace w0 @ new)"
      then have ids1: "opened_ids (trace w1) = opened_ids (trace w) @ [next_id ?h]"
        and h1: "highest_outbound_stream_id w1 = next_id ?h"
        and o1: "outbound w1 = []"
        and t1: "\<exists>new. trace w1 = trace w @ new"
        using w0 by auto
      show ?thesis
      proof (cases r1)
        case (Inl e)
        with Cons.prems(1) call have "r = Inl e" "w' = w1"
          by (simp_all add: w0_def)
        with ids1 o1 t1 show ?thesis
          by (intro exI [of _ 1]) simp
      next
        case (Inr v)
        with Cons.prems(1) call have "main_requests dec a us w1 = Some (r, w')"
          by (simp add: w0_def)
        from Cons.IH [OF this o1] obtain k where
          k: "k \<le> length us"
             "opened_ids (trace w') = opened_ids (trace w1)
                @ map (\<lambda>i. next_id (highest_outbound_stream_id w1) + 2 * i) [0..<k]"
             "r = Inr () \<longrightarrow> k = length us"
             "outbound w' = []"
             "\<exists>new. trace w' = trace w1 @ new"
          by blast
        have n: "next_id (next_id ?h) = next_id ?h + 2"
          by (simp add: next_id_def)
        have "opened_ids (trace w') = opened_ids (trace w)
                @ map (\<lambda>i. next_id ?h + 2 * i) [0..<Suc k]"
          unfolding k(2) ids1 h1 n by (simp add: map_upt_Suc del: upt_Suc)
        moreover from k(5) t1 have "\<exists>new. trace w' = trace w @ new"
          by auto
        ultimately show ?thesis
          using k(1,3,4) by (intro exI [of _ "Suc k"]) simp
      qed
    qed
  qed
qed

subsection \<open>The runs of \<open>main\<close>\<close>

text \<open>
  Every way in which \<open>main\<close> can end after a successful upgrade, outside test mode,
  with the states it went through.
\<close>

lemma main_upgraded_run:
  assumes "main_upgraded dec a extra_data w = Some (r, w')" and "\<not> arg_test a"
  defines "w2 \<equiv> sendall_data_to_send
                  (emit (Print ''[INFO] h2c stream established successfully.'') w)"
  obtains
    (no_extra)
      "extra_data = None" "r = Inl TypeError" "w' = w2"
  | (bad_extra) extra where
      "extra_data = Some extra" "dec (trace w2) extra = None"
      "r = Inl ProtocolError" "w' = emit (Feed extra) w2"
  | (drain_failed) extra events0 e where
      "extra_data = Some extra" "dec (trace w2) extra = Some events0"
      "getData dec (emit (Feed extra) w2) = Some (Inl e, w')" "r = Inl e"
  | (report_failed) extra events0 events w4 e where
      "extra_data = Some extra" "dec (trace w2) extra = Some events0"
      "getData dec (emit (Feed extra) w2) = Some (Inr events, w4)"
      "handle_events events (arg_verbose a) (sendall_data_to_send w4) = (Inl e, w')"
      "r = Inl e"
  | (no_urls) extra events0 events w4 e where
      "extra_data = Some extra" "dec (trace w2) extra = Some events0"
      "getData dec (emit (Feed extra) w2) = Some (Inr events, w4)"
      "handle_events events (arg_verbose a) (sendall_data_to_send w4) = (Inr (), w')"
      "arg_urls a = Inl e" "r = Inl e"
  | (request_failed) extra events0 events w4 w5 us e where
      "extra_data = Some extra" "dec (trace w2) extra = Some events0"
      "getData dec (emit (Feed extra) w2) = Some (Inr events, w4)"
      "handle_events events (arg_verbose a) (sendall_data_to_send w4) = (Inr (), w5)"
      "arg_urls a = Inr us" "main_requests dec a us w5 = Some (Inl e, w')" "r = Inl e"
  | (completed) extra events0 events w4 w5 us w6 where
      "extra_data = Some extra" "dec (trace w2) extra = Some events0"
      "getData dec (emit (Feed extra) w2) = Some (Inr events, w4)"
      "handle_events events (arg_verbose a) (sendall_data_to_send w4) = (Inr (), w5)"
      "arg_urls a = Inr us" "main_requests dec a us w5 = Some (Inr (), w6)" "r = Inr ()"
      "w' = emit Close (emit Shutdown (sendall_data_to_send (close_connection w6)))"
proof (cases extra_data)
  case None
  with assms(1,2) show thesis
    by (intro no_extra) (simp_all add: main_upgraded_def w2_def)
next
  case (Some extra)
  note ex = Some
  show thesis
  proof (cases "dec (trace w2) extra")
    case None
    with assms(1,2) ex show thesis
      by (intro bad_extra [of extra]) (simp_all add: main_upgraded_def w2_def receive_data_def)
  next
    case (Some events0)
    note ev0 = Some
    from assms(1,2) ex ev0 have run3:
      "(case getData dec (emit (Feed extra) w2) of
          None \<Rightarrow> None
        | Some (Inl e, w4) \<Rightarrow> Some (Inl e, w4)
        | Some (Inr events, w4) \<Rightarrow>
            (case handle_events events (arg_verbose a) (sendall_data_to_send w4) of
               (Inl e, w5) \<Rightarrow> Some (Inl e, w5)
             | (Inr _, w5) \<Rightarrow>
                 (case arg_urls a of
                    Inl e \<Rightarrow> Some (Inl e, w5)
                  | Inr us \<Rightarrow>
                      (case main_requests dec a us w5 of
                         None \<Rightarrow> None
                       | Some (Inl e, w6) \<Rightarrow> Some (Inl e, w6)
                       | Some (Inr _, w6) \<Rightarrow>
                           Some (Inr (),
                                 emit Close (emit Shutdown
                                   (sendall_data_to_send (close_connection w6)))))))) = Some (r, w')"
      by (simp add: main_upgraded_def w2_def receive_data_def)
    show thesis
    proof (cases "getData dec (emit (Feed extra) w2)")
      case None
      with run3 show thesis by simp
    next
      case (Some y4)
      obtain r4 w4 where y4: "y4 = (r4, w4)" by (cases y4)
      show thesis
      proof (cases r4)
        case (Inl e)
        with run3 Some y4 ex ev0 show thesis
          by (intro drain_failed [of extra events0 e]) simp_all
      next
        case (Inr events)
        note g = Some [unfolded y4 Inr]
        obtain r5 w5 where
          h: "handle_events events (arg_verbose a) (sendall_data_to_send w4) = (r5, w5)"
          by (cases "handle_events events (arg_verbose a) (sendall_data_to_send w4)")
        show thesis
        proof (cases r5)
          case (Inl e)
          with run3 g h ex ev0 show thesis
            by (intro report_failed [of extra events0 events w4 e]) simp_all
        next
          case (Inr u5)
          note h' = h [unfolded Inr]
          show thesis
          proof (cases "arg_urls a")
            case (Inl e)
            with run3 g h' ex ev0 show thesis
              by (intro no_urls [of extra events0 events w4 e]) simp_all
          next
            case (Inr us)
            note u = Inr
            show thesis
            proof (cases "main_requests dec a us w5")
              case None
              with run3 g h' u show thesis by simp
            next
              case (Some y6)
              obtain r6 w6 where y6: "y6 = (r6, w6)" by (cases y6)
              show thesis
              proof (cases r6)
                case (Inl e)
                with run3 g h' u Some y6 ex ev0 show thesis
                  by (intro request_failed [of extra events0 events w4 w5 us e]) simp_all
              next
                case (Inr u6)
                with run3 g h' u Some y6 ex ev0 show thesis
                  by (intro completed [of extra events0 events w4 w5 us w6]) simp_all
              qed
            qed
          qed
        qed
      qed
    qed
  qed
qed

text \<open>Every way in which \<open>main\<close> can end, up to the point where the upgrade has succeeded.\<close>

lemma main_run:
  assumes "main dec UPGRADE_ONLY a w = Some (r, w')"
  obtains
    (invalid)
      "\<not> startswith (arg_proxy a) ''http''" "r = Inl (SystemExit 1)"
      "w' = emit (PrintErr (''[ERROR]: invalid protocol: '' @ arg_proxy a)) w"
  | (connect_failed) e where
      "startswith (arg_proxy a) ''http''"
      "establish_tcp_connection (arg_proxy_url a) w = (Inl e, w')" "r = Inl e"
  | (send_failed) w1 e where
      "startswith (arg_proxy a) ''http''"
      "establish_tcp_connection (arg_proxy_url a) w = (Inr (), w1)"
      "send_initial_request UPGRADE_ONLY (arg_proxy_url a) []
         (snd (initiate_upgrade_connection (H2Connection w1))) = (Inl e, w')" "r = Inl e"
  | (response_failed) w1 w3 e where
      "startswith (arg_proxy a) ''http''"
      "establish_tcp_connection (arg_proxy_url a) w = (Inr (), w1)"
      "send_initial_request UPGRADE_ONLY (arg_proxy_url a) []
         (snd (initiate_upgrade_connection (H2Connection w1))) = (Inr (), w3)"
      "get_upgrade_response (arg_proxy_url a) w3 = Some (Inl e, w')" "r = Inl e"
  | (not_capable) w1 w3 extra_data where
      "startswith (arg_proxy a) ''http''"
      "establish_tcp_connection (arg_proxy_url a) w = (Inr (), w1)"
      "send_initial_request UPGRADE_ONLY (arg_proxy_url a) []
         (snd (initiate_upgrade_connection (H2Connection w1))) = (Inr (), w3)"
      "get_upgrade_response (arg_proxy_url a) w3 = Some (Inr (extra_data, False), w')"
      "r = Inl (SystemExit 1)"
  | (upgraded) w1 w3 extra_data w4 where
      "startswith (arg_proxy a) ''http''"
      "establish_tcp_connection (arg_proxy_url a) w = (Inr (), w1)"
      "send_initial_request UPGRADE_ONLY (arg_proxy_url a) []
         (snd (initiate_upgrade_connection (H2Connection w1))) = (Inr (), w3)"
      "get_upgrade_response (arg_proxy_url a) w3 = Some (Inr (extra_data, True), w4)"
      "main_upgraded dec a extra_data w4 = Some (r, w')"
proof (cases "startswith (arg_proxy a) ''http''")
  case False
  with assms show thesis
    by (intro invalid) (simp_all add: main_def)
next
  case True
  note st = True
  obtain r1 w1 where e: "establish_tcp_connection (arg_proxy_url a) w = (r1, w1)"
    by (cases "establish_tcp_connection (arg_proxy_url a) w")
  show thesis
  proof (cases r1)
    case (Inl e1)
    with assms st e show thesis
      by (intro connect_failed [of e1]) (simp_all add: main_def)
  next
    case (Inr u1)
    note e' = e [unfolded Inr]
    have i: "initiate_upgrade_connection (H2Connection w1)
               = ([], snd (initiate_upgrade_connection (H2Connection w1)))"
      by (simp add: initiate_upgrade_connection_def)
    obtain r3 w3 where
      s: "send_initial_request UPGRADE_ONLY (arg_proxy_url a) []
            (snd (initiate_upgrade_connection (H2Connection w1))) = (r3, w3)"
      by (cases "send_initial_request UPGRADE_ONLY (arg_proxy_url a) []
                   (snd (initiate_upgrade_connection (H2Connection w1)))")
    from assms st e' have run:
      "(case send_initial_request UPGRADE_ONLY (arg_proxy_url a) []
               (snd (initiate_upgrade_connection (H2Connection w1))) of
          (Inl e, w3) \<Rightarrow> Some (Inl e, w3)
        | (Inr _, w3) \<Rightarrow>
            (case get_upgrade_response (arg_proxy_url a) w3 of
               None \<Rightarrow> None
             | Some (Inl e, w4) \<Rightarrow> Some (Inl e, w4)
             | Some (Inr (extra_data, success), w4) \<Rightarrow>
                 (if \<not> success then Some (Inl (SystemExit 1), w4)
                  else main_upgraded dec a extra_data w4))) = Some (r, w')"
      by (subst (asm) main_def) (simp add: initiate_upgrade_connection_def)
    show thesis
    proof (cases r3)
      case (Inl e3)
      with run s st e' show thesis
        by (intro send_failed [of w1 e3]) simp_all
    next
      case (Inr u3)
      note s' = s [unfolded Inr]
      show thesis
      proof (cases "get_upgrade_response (arg_proxy_url a) w3")
        case None
        with run s' show thesis by simp
      next
        case (Some y4)
        obtain r4 w4 where y4: "y4 = (r4, w4)" by (cases y4)
        show thesis
        proof (cases r4)
          case (Inl e4)
          with run s' Some y4 st e' show thesis
            by (intro response_failed [of w1 w3 e4]) simp_all
        next
          case (Inr p)
          obtain extra_data success where p: "p = (extra_data, success)" by (cases p)
          show thesis
          proof (cases success)
            case True
            with run s' Some y4 Inr p st e' show thesis
              by (intro upgraded [of w1 w3 extra_data w4]) simp_all
          next
            case False
            with run s' Some y4 Inr p st e' show thesis
              by (intro not_capable [of w1 w3 extra_data]) simp_all
          qed
        qed
      qed
    qed
  qed
qed

text \<open>The state in which \<open>main\<close> waits for the upgrade response.\<close>

lemma main_prologue_state:
  assumes "establish_tcp_connection proxy_url w = (r1, w1)"
      and "send_initial_request UPGRADE_ONLY proxy_url s
             (snd (initiate_upgrade_connection (H2Connection w1))) = (r3, w3)"
  shows "opened_ids (trace w1) = opened_ids (trace w)"
    and "opened_ids (trace w3) = opened_ids (trace w)"
    and "highest_outbound_stream_id w3 = 1"
    and "outbound w3 = [ClientPreface]"
proof -
  from assms(1) have w1: "w1 = emit (Connect (hostname proxy_url)
      (case port proxy_url of
         None \<Rightarrow> (if scheme proxy_url = ''http'' then 80 else 443)
       | Some n \<Rightarrow> (if n = 0 then (if scheme proxy_url = ''http'' then 80 else 443) else n))) w"
    by (auto simp: establish_tcp_connection_def Let_def split: option.splits)
  then show a: "opened_ids (trace w1) = opened_ids (trace w)"
    by (simp add: opened_ids_append)
  let ?w2 = "snd (initiate_upgrade_connection (H2Connection w1))"
  have w2: "trace ?w2 = trace w1" "highest_outbound_stream_id ?w2 = 1"
    "outbound ?w2 = [ClientPreface]"
    by (simp_all add: initiate_upgrade_connection_def H2Connection_def)
  from assms(2) have "w3 = ?w2 \<or> (\<exists>x. w3 = emit (SendRaw x) ?w2)"
    by (auto simp: send_initial_request_def encode_utf8_def Let_def
          split: option.splits if_splits)
  with w2 a show "opened_ids (trace w3) = opened_ids (trace w)"
    and "highest_outbound_stream_id w3 = 1"
    and "outbound w3 = [ClientPreface]"
    by (auto simp: opened_ids_append)
qed

lemma sendall_data_to_send_session:
  "opened_ids (trace (sendall_data_to_send v)) = opened_ids (trace v) @ frame_ids (outbound v)"
  "highest_outbound_stream_id (sendall_data_to_send v) = highest_outbound_stream_id v"
  "outbound (sendall_data_to_send v) = []"
  by (simp_all add: sendall_data_to_send_def opened_ids_append)

lemma main_upgraded_ids:
  assumes "main_upgraded dec a extra_data w = Some (r, w')"
      and "frame_ids (outbound w) = []"
  shows "\<exists>k. opened_ids (trace w') = opened_ids (trace w)
               @ map (\<lambda>i. next_id (highest_outbound_stream_id w) + 2 * i) [0..<k]
            \<and> (\<forall>us. r = Inr () \<longrightarrow> arg_urls a = Inr us \<longrightarrow> k = length us)"
proof (cases "arg_test a")
  case True
  with assms(1) have "r = Inl (SystemExit 0)" "opened_ids (trace w') = opened_ids (trace w)"
    by (auto simp: main_upgraded_def opened_ids_append)
  then show ?thesis
    by (intro exI [of _ 0]) simp
next
  case False
  let ?h = "highest_outbound_stream_id w"
  define w2 where "w2 = sendall_data_to_send
                     (emit (Print ''[INFO] h2c stream established successfully.'') w)"
  have w2: "opened_ids (trace w2) = opened_ids (trace w)"
    "highest_outbound_stream_id w2 = ?h" "outbound w2 = []"
    using assms(2) by (simp_all add: w2_def sendall_data_to_send_session opened_ids_append)
  have quiet: "opened_ids (trace v) = opened_ids (trace w)
      \<and> highest_outbound_stream_id v = ?h \<and> outbound v = []"
    if "io_only silent_io w2 v" for v
    using io_only_fields(1,2) [OF that] io_only_opened_ids [OF that] w2 by simp
  have fed: "io_only silent_io w2 (emit (Feed extra) w2)" for extra
    by (rule io_only_emit) (simp add: silent_io_def is_Feed_def)
  have none: ?thesis if "r \<noteq> Inr ()" "opened_ids (trace w') = opened_ids (trace w)"
    using that by (intro exI [of _ 0]) simp
  have drained: "io_only silent_io w2 w4"
    if "getData dec (emit (Feed extra) w2) = Some (r4, w4)" for extra r4 w4
    using fed getData_io [OF that] by (rule io_only_trans)
  have reported: "opened_ids (trace w5) = opened_ids (trace w)
      \<and> highest_outbound_stream_id w5 = ?h \<and> outbound w5 = []"
    if "getData dec (emit (Feed extra) w2) = Some (r4, w4)"
      and "handle_events events (arg_verbose a) (sendall_data_to_send w4) = (r5, w5)"
    for extra r4 w4 events r5 w5
  proof -
    note q4 = quiet [OF drained [OF that(1)]]
    from that(2) have "io_only silent_io (sendall_data_to_send w4) w5"
      by (intro prints_only_io handle_events_prints)
    from io_only_fields(1,2) [OF this] io_only_opened_ids [OF this] q4
    show ?thesis
      by (simp add: sendall_data_to_send_session)
  qed
  from assms(1) False show ?thesis
  proof (cases rule: main_upgraded_run)
    case no_extra
    with w2 show ?thesis
      by (intro none) (simp_all add: w2_def)
  next
    case (bad_extra extra)
    with quiet [OF fed [of extra]] show ?thesis
      by (intro none) (simp_all add: w2_def)
  next
    case (drain_failed extra events0 e)
    from quiet [OF drained [OF drain_failed(3) [folded w2_def]]] drain_failed(4)
    show ?thesis
      by (intro none) simp_all
  next
    case (report_failed extra events0 events w4 e)
    from reported [OF report_failed(3) [folded w2_def] report_failed(4)] report_failed(5)
    show ?thesis
      by (intro none) simp_all
  next
    case (no_urls extra events0 events w4 e)
    from reported [OF no_urls(3) [folded w2_def] no_urls(4)] no_urls(6)
    show ?thesis
      by (intro none) simp_all
  next
    case (request_failed extra events0 events w4 w5 us e)
    note q5 = reported [OF request_failed(3) [folded w2_def] request_failed(4)]
    from q5 have o5: "outbound w5 = []" by simp
    from main_requests_ids [OF request_failed(6) o5] q5 obtain k where
      "opened_ids (trace w') = opened_ids (trace w) @ map (\<lambda>i. next_id ?h + 2 * i) [0..<k]"
      by auto
    with request_failed(7) show ?thesis
      by (intro exI [of _ k]) simp
  next
    case (completed extra events0 events w4 w5 us w6)
    note q5 = reported [OF completed(3) [folded w2_def] completed(4)]
    from q5 have o5: "outbound w5 = []" by simp
    from main_requests_ids [OF completed(6) o5] q5 have
      "opened_ids (trace w6) = opened_ids (trace w)
         @ map (\<lambda>i. next_id ?h + 2 * i) [0..<length us]"
      and "outbound w6 = []"
      by auto
    then have "opened_ids (trace w') = opened_ids (trace w)
         @ map (\<lambda>i. next_id ?h + 2 * i) [0..<length us]"
      by (simp add: completed(8) sendall_data_to_send_session close_connection_def
            opened_ids_append)
    with completed(5) show ?thesis
      by (intro exI [of _ "length us"]) simp
  qed
qed

lemma odd_ids_from_3:
  fixes ids :: "nat list"
  assumes "ids = map (\<lambda>i. 3 + 2 * i) [0..<k]"
  shows "ids = map (\<lambda>i. 3 + 2 * i) [0..<length ids]"
    and "sorted_wrt (<) ids" and "\<forall>i\<in>set ids. odd i" and "distinct ids"
proof -
  from assms show "ids = map (\<lambda>i. 3 + 2 * i) [0..<length ids]"
    by simp
  from assms show "sorted_wrt (<) ids"
    by (simp add: sorted_wrt_map)
  from assms show "\<forall>i\<in>set ids. odd i"
    by auto
  from assms show "distinct ids"
    by (simp add: distinct_map inj_on_def)
qed

text \<open>
  C9: in every run of \<open>main\<close>, the stream IDs of the HEADERS frames it writes, one per
  smuggled request, are 3, 5, 7, ... in this order: strictly increasing, odd, none
  used twice, starting from the first ID the session has left for the client (stream
  1 is the upgrade request). A run that completes has opened one stream per URL.
\<close>

theorem stream_ids_increasing_odd:
  assumes "main dec UPGRADE_ONLY a w0 = Some (r, w)"
  shows "\<exists>ids. opened_ids (trace w) = opened_ids (trace w0) @ ids
           \<and> ids = map (\<lambda>i. 3 + 2 * i) [0..<length ids]
           \<and> sorted_wrt (<) ids \<and> (\<forall>i\<in>set ids. odd i) \<and> distinct ids
           \<and> (\<forall>us. r = Inr () \<longrightarrow> arg_urls a = Inr us \<longrightarrow> length ids = length us)"
proof -
  have early: ?thesis if "r \<noteq> Inr ()" "opened_ids (trace w) = opened_ids (trace w0)"
    using that by (intro exI [of _ "[]"]) simp
  from assms show ?thesis
  proof (cases rule: main_run)
    case invalid
    then show ?thesis
      by (intro early) (simp_all add: opened_ids_append)
  next
    case (connect_failed e)
    with main_prologue_state(1) [OF connect_failed(2), of UPGRADE_ONLY "[]"] show ?thesis
      by (intro early) (simp_all add: prod_eq_iff)
  next
    case (send_failed w1 e)
    with main_prologue_state(2) [OF send_failed(2,3)] show ?thesis
      by (intro early) simp_all
  next
    case (response_failed w1 w3 e)
    from io_only_opened_ids [OF get_upgrade_response_io [OF response_failed(4)]]
      main_prologue_state(2) [OF response_failed(2,3)] response_failed(5)
    show ?thesis
      by (intro early) simp_all
  next
    case (not_capable w1 w3 extra_data)
    from io_only_opened_ids [OF get_upgrade_response_io [OF not_capable(4)]]
      main_prologue_state(2) [OF not_capable(2,3)] not_capable(5)
    show ?thesis
      by (intro early) simp_all
  next
    case (upgraded w1 w3 extra_data w4)
    note io = get_upgrade_response_io [OF upgraded(4)]
    note p = main_prologue_state(2-4) [OF upgraded(2,3)]
    from io_only_fields(1,2) [OF io] io_only_opened_ids [OF io] p have
      w4: "opened_ids (trace w4) = opened_ids (trace w0)"
        "highest_outbound_stream_id w4 = 1" "frame_ids (outbound w4) = []"
      by simp_all
    have n: "next_id (highest_outbound_stream_id w4) = 3"
      unfolding w4(2) by (simp add: next_id_def)
    from main_upgraded_ids [OF upgraded(5) w4(3)] obtain k where
      k: "opened_ids (trace w) = opened_ids (trace w0) @ map (\<lambda>i. 3 + 2 * i) [0..<k]"
         "\<forall>us. r = Inr () \<longrightarrow> arg_urls a = Inr us \<longrightarrow> k = length us"
      unfolding w4(1) n by blast
    define ids :: "nat list" where "ids = map (\<lambda>i. 3 + 2 * i) [0..<k]"
    from k(2) have "\<forall>us. r = Inr () \<longrightarrow> arg_urls a = Inr us \<longrightarrow> length ids = length us"
      by (simp add: ids_def)
    with k(1) odd_ids_from_3 [OF ids_def] show ?thesis
      unfolding ids_def [symmetric] by blast
  qed
qed

text \<open>C9 on a run with two URLs: the streams opened are 3 and 5.\<close>

theorem stream_ids_increasing_odd_witness:
  "opened_ids (trace (snd (the
     (main fake_decoder False (example_args False [target_url ''/admin'', target_url ''/x''])
        (peer [Chunk switching_protocols, TimesOut, Chunk ''HDE'', Chunk ''HDE''] Silent)))))
   = [3, 5]"
proof -
  let ?a = "example_args False [target_url ''/admin'', target_url ''/x'']"
  let ?w0 = "peer [Chunk switching_protocols, TimesOut, Chunk ''HDE'', Chunk ''HDE''] Silent"
  have f: "map_option fst (main fake_decoder False ?a ?w0) = Some (Inr ())"
    by code_simp
  then obtain w where run: "main fake_decoder False ?a ?w0 = Some (Inr (), w)"
    by (cases "main fake_decoder False ?a ?w0") auto
  have u: "arg_urls ?a = Inr [target_url ''/admin'', target_url ''/x'']"
    by (simp add: example_args_def)
  have t: "opened_ids (trace ?w0) = []"
    by (simp add: peer_def)
  from stream_ids_increasing_odd [OF run] obtain ids where
    a: "opened_ids (trace w) = opened_ids (trace ?w0) @ ids" and
    b: "ids = map (\<lambda>i. 3 + 2 * i) [0..<length ids]" and
    c: "\<forall>us. Inr () = (Inr () :: py_error + unit) \<longrightarrow> arg_urls ?a = Inr us
             \<longrightarrow> length ids = length us"
    by blast
  from c u have "length ids = 2"
    by simp
  with b have "ids = map (\<lambda>i. 3 + 2 * i) [0..<2]"
    by simp
  also have "\<dots> = [3, 5]"
    by code_simp
  finally show ?thesis
    using a t run by simp
qed

subsection \<open>The leftover bytes of the upgrade response\<close>

text \<open>\<open>data.split(sep, 1)\<close> cuts \<open>data\<close> at the first occurrence of \<open>sep\<close> and loses nothing.\<close>

lemma split_first_parts:
  assumes "split_first sep d = Some (h, r)"
  shows "d = h @ sep @ r"
  using assms
proof (induction d arbitrary: h)
  case Nil
  then show ?case by simp
next
  case (Cons c cs)
  show ?case
  proof (cases "startswith (c # cs) sep")
    case True
    with Cons.prems have "h = []" and "r = drop (length sep) (c # cs)"
      by simp_all
    moreover from True have "take (length sep) (c # cs) = sep"
      by (simp add: startswith_def)
    ultimately show ?thesis
      by (metis append_Nil append_take_drop_id)
  next
    case False
    with Cons.prems obtain h' where "split_first sep cs = Some (h', r)" and "h = c # h'"
      by (auto split: option.splits)
    with Cons.IH [of h'] show ?thesis
      by simp
  qed
qed

lemma split_first_is_first:
  assumes "split_first sep d = Some (h, r)" and "n < length h"
  shows "\<not> startswith (drop n d) sep"
  using assms
proof (induction d arbitrary: h n)
  case Nil
  then show ?case by simp
next
  case (Cons c cs)
  show ?case
  proof (cases "startswith (c # cs) sep")
    case True
    with Cons.prems show ?thesis
      by simp
  next
    case False
    with Cons.prems(1) obtain h' where h': "split_first sep cs = Some (h', r)" "h = c # h'"
      by (auto split: option.splits)
    show ?thesis
    proof (cases n)
      case 0
      with False show ?thesis by simp
    next
      case (Suc m)
      with Cons.prems(2) h'(2) have "m < length h'" by simp
      from Cons.IH [OF h'(1) this] Suc show ?thesis by simp
    qed
  qed
qed

text \<open>
  What \<open>get_upgrade_response\<close> returns on success: it has only read from the socket,
  and the remainder it returns is what \<open>split\<close> found after the header block in the
  bytes read.
\<close>

lemma get_upgrade_response_success:
  assumes "get_upgrade_response proxy_url w = Some (Inr (extra_data, True), w1)"
  shows "\<exists>chunks hdrs rest.
           trace w1 = trace w @ map (\<lambda>d. Recv (Inr d)) chunks
         \<and> split_first CRLFCRLF (concat chunks) = Some (hdrs, rest)
         \<and> extra_data = Some rest"
proof (cases "get_upgrade_response_loop [] w")
  case None
  with assms show ?thesis
    by (simp add: get_upgrade_response_def)
next
  case (Some y)
  obtain r0 w0 where y: "y = (r0, w0)" by (cases y)
  from get_upgrade_response_loop_reads [OF Some] y obtain chunks where
    reads: "upgrade_reads [] w (r0, w0) chunks" by blast
  show ?thesis
  proof (cases r0)
    case (Inl e)
    with assms Some y show ?thesis
      by (simp add: get_upgrade_response_def)
  next
    case (Inr data)
    with reads have data: "data = concat chunks"
      and "w0 = w\<lparr>incoming := incoming w0,
                    trace := trace w @ map (\<lambda>d. Recv (Inr d)) chunks\<rparr>"
      by (simp_all add: upgrade_reads_def)
    then have t0: "trace w0 = trace w @ map (\<lambda>d. Recv (Inr d)) chunks"
      by (metis world.select_convs(6) world.surjective world.update_convs(1,6))
    from assms Some y Inr have
      rd: "read_upgrade_response proxy_url data w0 = (Inr (extra_data, True), w1)"
      by (simp add: get_upgrade_response_def)
    then obtain hdrs rest where s: "split_first CRLFCRLF data = Some (hdrs, rest)"
      by (cases "split_first CRLFCRLF data") (auto simp: read_upgrade_response_def)
    with rd have "extra_data = Some rest" and "w1 = w0"
      by (auto simp: read_upgrade_response_def split: list.splits if_splits)
    with s t0 data show ?thesis
      by blast
  qed
qed

text \<open>
  What \<open>main\<close> does first after a successful upgrade, outside test mode: it prints a
  line, writes the pending frames, and gives the leftover bytes to the decoder.
\<close>

lemma main_upgraded_feeds_first:
  assumes "main_upgraded dec a (Some extra) w = Some (r, w')" and "\<not> arg_test a"
  shows "\<exists>post. trace w' = trace w @ [Print ''[INFO] h2c stream established successfully.'',
                                       SendFrames (outbound w), Feed extra] @ post"
proof -
  define w3 where "w3 = emit (Feed extra) (sendall_data_to_send
                     (emit (Print ''[INFO] h2c stream established successfully.'') w))"
  have t3: "trace w3 = trace w @ [Print ''[INFO] h2c stream established successfully.'',
                                  SendFrames (outbound w), Feed extra]"
    by (simp add: w3_def sendall_data_to_send_def)
  have fin: ?thesis if "\<exists>new. trace w' = trace w3 @ new"
    using that t3 by auto
  have io: "\<exists>new. trace v' = trace v @ new" if "io_only silent_io v v'" for v v'
    using io_only_fields(5) [OF that] by blast
  have drained: "\<exists>new. trace w4 = trace w3 @ new"
    if "getData dec w3 = Some (r4, w4)" for r4 w4
    by (rule io [OF getData_io [OF that]])
  have reported: "(\<exists>new. trace w5 = trace w3 @ new) \<and> outbound w5 = []"
    if "getData dec w3 = Some (r4, w4)"
      and "handle_events events (arg_verbose a) (sendall_data_to_send w4) = (r5, w5)"
    for r4 w4 events r5 w5
  proof -
    from drained [OF that(1)] obtain n1 where n1: "trace w4 = trace w3 @ n1" ..
    have s: "trace (sendall_data_to_send w4) = trace w4 @ [SendFrames (outbound w4)]"
      "outbound (sendall_data_to_send w4) = []"
      by (simp_all add: sendall_data_to_send_def)
    have p: "io_only silent_io (sendall_data_to_send w4) w5"
      by (rule prints_only_io [OF handle_events_prints [OF that(2)]])
    from io [OF p] obtain n2 where "trace w5 = trace (sendall_data_to_send w4) @ n2" ..
    with n1 s(1) have "trace w5 = trace w3 @ (n1 @ [SendFrames (outbound w4)] @ n2)"
      by simp
    moreover from io_only_fields(2) [OF p] s(2) have "outbound w5 = []"
      by simp
    ultimately show ?thesis
      by blast
  qed
  from assms show ?thesis
  proof (cases rule: main_upgraded_run)
    case no_extra
    then show ?thesis by simp
  next
    case (bad_extra x)
    then have "trace w' = trace w3 @ []"
      by (simp add: w3_def)
    then show ?thesis
      by (intro fin) blast
  next
    case (drain_failed x events0 e)
    then have "getData dec w3 = Some (Inl e, w')"
      by (simp add: w3_def)
    from drained [OF this] show ?thesis
      by (rule fin)
  next
    case (report_failed x events0 events w4 e)
    then have "getData dec w3 = Some (Inr events, w4)"
      by (simp add: w3_def)
    from reported [OF this report_failed(4)] show ?thesis
      by (intro fin) simp
  next
    case (no_urls x events0 events w4 e)
    then have "getData dec w3 = Some (Inr events, w4)"
      by (simp add: w3_def)
    from reported [OF this no_urls(4)] show ?thesis
      by (intro fin) simp
  next
    case (request_failed x events0 events w4 w5 us e)
    then have "getData dec w3 = Some (Inr events, w4)"
      by (simp add: w3_def)
    from reported [OF this request_failed(4)] obtain n1 where
      n1: "trace w5 = trace w3 @ n1" and o5: "outbound w5 = []"
      by blast
    from main_requests_ids [OF request_failed(6) o5] obtain n2 where
      "trace w' = trace w5 @ n2"
      by blast
    with n1 have "trace w' = trace w3 @ (n1 @ n2)"
      by simp
    then show ?thesis
      by (intro fin) blast
  next
    case (completed x events0 events w4 w5 us w6)
    then have "getData dec w3 = Some (Inr events, w4)"
      by (simp add: w3_def)
    from reported [OF this completed(4)] obtain n1 where
      n1: "trace w5 = trace w3 @ n1" and o5: "outbound w5 = []"
      by blast
    from main_requests_ids [OF completed(6) o5] obtain n2 where
      "trace w6 = trace w5 @ n2"
      by blast
    with n1 completed(8) have
      "trace w' = trace w3 @ (n1 @ n2 @ [SendFrames (outbound (close_connection w6)),
                                         Shutdown, Close])"
      by (simp add: sendall_data_to_send_def close_connection_def)
    then show ?thesis
      by (intro fin) blast
  qed
qed

text \<open>
  The two steps read backwards, from their results: when the upgrade succeeds,
  \<open>get_upgrade_response\<close> has read the chunks \<open>chunks\<close>
  from the socket and nothing else has happened; the bytes read are a header block
  \<open>hdrs\<close>, the first CR LF CR LF (none starts earlier), and a remainder \<open>rest\<close>, and
  \<open>rest\<close> is what the function returns. Outside test mode \<open>main\<close> then prints one line,
  writes the pending frames and gives exactly \<open>rest\<close> to the decoder, before it reads
  from the socket again: no byte after the header block is lost and none is given
  twice.
\<close>

theorem leftover_bytes_fed_first:
  assumes "get_upgrade_response proxy_url w = Some (Inr (extra_data, True), w1)"
      and "main_upgraded dec a extra_data w1 = Some (r, w2)"
      and "\<not> arg_test a"
  shows "\<exists>chunks hdrs rest post.
           trace w1 = trace w @ map (\<lambda>d. Recv (Inr d)) chunks
         \<and> concat chunks = hdrs @ CRLFCRLF @ rest
         \<and> (\<forall>n<length hdrs. \<not> startswith (drop n (concat chunks)) CRLFCRLF)
         \<and> extra_data = Some rest
         \<and> trace w2 = trace w1 @ [Print ''[INFO] h2c stream established successfully.'',
                                   SendFrames (outbound w1), Feed rest] @ post"
proof -
  from get_upgrade_response_success [OF assms(1)] obtain chunks hdrs rest where
    t1: "trace w1 = trace w @ map (\<lambda>d. Recv (Inr d)) chunks" and
    s: "split_first CRLFCRLF (concat chunks) = Some (hdrs, rest)" and
    e: "extra_data = Some rest"
    by blast
  note parts = split_first_parts [OF s]
  have first: "\<forall>n<length hdrs. \<not> startswith (drop n (concat chunks)) CRLFCRLF"
    using split_first_is_first [OF s] by blast
  from assms(2) e have "main_upgraded dec a (Some rest) w1 = Some (r, w2)"
    by simp
  from main_upgraded_feeds_first [OF this assms(3)] obtain post where
    "trace w2 = trace w1 @ [Print ''[INFO] h2c stream established successfully.'',
                            SendFrames (outbound w1), Feed rest] @ post" ..
  with t1 parts first e show ?thesis
    by blast
qed

text \<open>
  The same on a response that arrives in two chunks, the second one carrying two bytes
  that follow the header block.
\<close>

theorem leftover_bytes_fed_first_witness:
  "\<exists>w1 r w2 post.
     get_upgrade_response example_url
       (peer [Chunk ''HTTP/1.1 101 Switching'',
              Chunk ('' Protocols'' @ CRLFCRLF @ ''HD''), Chunk ''E'', Chunk ''HDE''] Silent)
       = Some (Inr (Some ''HD'', True), w1)
   \<and> main_upgraded fake_decoder (example_args False [target_url ''/admin'']) (Some ''HD'') w1
       = Some (r, w2)
   \<and> trace w1 = [Recv (Inr ''HTTP/1.1 101 Switching''),
                  Recv (Inr ('' Protocols'' @ CRLFCRLF @ ''HD''))]
   \<and> trace w2 = trace w1 @ [Print ''[INFO] h2c stream established successfully.'',
                             SendFrames [], Feed ''HD''] @ post"
proof -
  let ?w = "peer [Chunk ''HTTP/1.1 101 Switching'',
                  Chunk ('' Protocols'' @ CRLFCRLF @ ''HD''), Chunk ''E'', Chunk ''HDE''] Silent"
  let ?w1 = "(peer [Chunk ''E'', Chunk ''HDE''] Silent)
               \<lparr>trace := [Recv (Inr ''HTTP/1.1 101 Switching''),
                          Recv (Inr ('' Protocols'' @ CRLFCRLF @ ''HD''))]\<rparr>"
  let ?a = "example_args False [target_url ''/admin'']"
  have g: "get_upgrade_response example_url ?w = Some (Inr (Some ''HD'', True), ?w1)"
    by code_simp
  have "main_upgraded fake_decoder ?a (Some ''HD'') ?w1 \<noteq> None"
    by code_simp
  then obtain r w2 where m: "main_upgraded fake_decoder ?a (Some ''HD'') ?w1 = Some (r, w2)"
    by (cases "main_upgraded fake_decoder ?a (Some ''HD'') ?w1") auto
  have t: "\<not> arg_test ?a"
    by (simp add: example_args_def)
  have o: "outbound ?w1 = []" "trace ?w1 = [Recv (Inr ''HTTP/1.1 101 Switching''),
                          Recv (Inr ('' Protocols'' @ CRLFCRLF @ ''HD''))]"
    by (simp_all add: peer_def)
  from leftover_bytes_fed_first [OF g m t] obtain post where
    "trace w2 = trace ?w1 @ [Print ''[INFO] h2c stream established successfully.'',
                             SendFrames (outbound ?w1), Feed ''HD''] @ post"
    by blast
  with g m o show ?thesis
    by (metis (no_types))
qed

subsection \<open>The events decoded from the leftover bytes (C10)\<close>

text \<open>
  Two decoders that return the same for every call made after some bytes have been
  given to the decoder cannot be told apart by the drain loop once that has happened.
\<close>

lemma getData_loop_agree:
  assumes agree: "\<And>t d. list_ex is_Feed t \<Longrightarrow> dec t d = dec' t d"
      and run: "getData_loop dec events w = Some y"
      and feed: "list_ex is_Feed (trace w)"
  shows "getData_loop dec' events w = Some y"
proof -
  have "(\<forall>t d. list_ex is_Feed t \<longrightarrow> dec t d = dec' t d)
          \<longrightarrow> list_ex is_Feed (trace w) \<longrightarrow> getData_loop dec' events w = Some y"
  proof (rule getData_loop.raw_induct
      [where P = "\<lambda>d0 events w y.
         (\<forall>t d. list_ex is_Feed t \<longrightarrow> d0 t d = dec' t d)
           \<longrightarrow> list_ex is_Feed (trace w) \<longrightarrow> getData_loop dec' events w = Some y",
       OF _ run])
    fix loop :: "decoder \<Rightarrow> event list \<Rightarrow> world \<Rightarrow> ((py_error + event list) \<times> world) option"
    fix d0 events w y
    assume IH: "\<And>d0 events w y. loop d0 events w = Some y \<Longrightarrow>
                  (\<forall>t d. list_ex is_Feed t \<longrightarrow> d0 t d = dec' t d)
                    \<longrightarrow> list_ex is_Feed (trace w) \<longrightarrow> getData_loop dec' events w = Some y"
    assume step: "(case recv w of
                (Inl e, w') \<Rightarrow>
                  (if e = SocketTimeout then Some (Inr events, w') else Some (Inl e, w'))
              | (Inr newdata, w') \<Rightarrow>
                  (case receive_data d0 newdata w' of
                     (Inl e, w'') \<Rightarrow>
                       (if e = SocketTimeout then Some (Inr events, w'') else Some (Inl e, w''))
                   | (Inr new_events, w'') \<Rightarrow>
                       (if ends_with_StreamEnded (events @ new_events)
                        then Some (Inr (events @ new_events), w'')
                        else loop d0 (events @ new_events) w''))) = Some y"
    show "(\<forall>t d. list_ex is_Feed t \<longrightarrow> d0 t d = dec' t d)
            \<longrightarrow> list_ex is_Feed (trace w) \<longrightarrow> getData_loop dec' events w = Some y"
    proof (intro impI)
      assume ag: "\<forall>t d. list_ex is_Feed t \<longrightarrow> d0 t d = dec' t d"
        and fw: "list_ex is_Feed (trace w)"
      obtain r w1 where r: "recv w = (r, w1)"
        by (cases "recv w")
      with recv_result [of w] fw have f1: "list_ex is_Feed (trace w1)"
        by auto
      show "getData_loop dec' events w = Some y"
      proof (cases r)
        case (Inl e)
        with step r show ?thesis
          by (subst getData_loop.simps) simp
      next
        case (Inr d)
        from ag f1 have rd: "receive_data d0 d w1 = receive_data dec' d w1"
          by (simp add: receive_data_def)
        obtain r2 w2 where r2: "receive_data dec' d w1 = (r2, w2)"
          by (cases "receive_data dec' d w1")
        then have "trace w2 = trace w1 @ [Feed d]"
          by (auto simp: receive_data_def split: option.splits)
        with f1 have f2: "list_ex is_Feed (trace w2)"
          by simp
        show ?thesis
        proof (cases r2)
          case (Inl e)
          with step r Inr rd r2 show ?thesis
            by (subst getData_loop.simps) simp
        next
          case evs: (Inr evs)
          show ?thesis
          proof (cases "ends_with_StreamEnded (events @ evs)")
            case True
            with step r Inr rd r2 evs show ?thesis
              by (subst getData_loop.simps) simp
          next
            case False
            with step r Inr rd r2 evs have "loop d0 (events @ evs) w2 = Some y"
              by simp
            from IH [OF this] ag f2 have "getData_loop dec' (events @ evs) w2 = Some y"
              by blast
            with False r Inr r2 evs show ?thesis
              by (subst getData_loop.simps) simp
          qed
        qed
      qed
    qed
  qed
  with agree feed show ?thesis
    by blast
qed

lemma getData_agree:
  assumes agree: "\<And>t d. list_ex is_Feed t \<Longrightarrow> dec t d = dec' t d"
      and feed: "list_ex is_Feed (trace w)"
  shows "getData dec w = getData dec' w"
proof -
  have a: "getData_loop dec' [] w = Some y" if "getData_loop dec [] w = Some y" for y
    using agree that feed by (rule getData_loop_agree)
  have b: "getData_loop dec [] w = Some y" if "getData_loop dec' [] w = Some y" for y
    using agree [symmetric] that feed by (rule getData_loop_agree)
  show ?thesis
  proof (cases "getData_loop dec [] w")
    case None
    with b show ?thesis
      by (cases "getData_loop dec' [] w") (simp_all add: getData_def)
  next
    case (Some y)
    with a [OF Some] show ?thesis
      by (simp add: getData_def)
  qed
qed

text \<open>A smuggled request only adds to the trace.\<close>

lemma sendSmuggledRequest_extends:
  assumes "sendSmuggledRequest dec hs a w = Some (r, w')"
  shows "\<exists>new. trace w' = trace w @ new"
proof (cases "get_next_available_stream_id w")
  case (Inl e)
  with assms show ?thesis
    by (simp add: sendSmuggledRequest_def)
next
  case (Inr sid)
  define w2 where
    "w2 = sendall_data_to_send (send_headers sid hs (arg_data a = None) w)"
  have t2: "\<exists>new. trace w2 = trace w @ new"
    by (simp add: w2_def sendall_data_to_send_def send_headers_def)
  have fin: ?thesis if "\<exists>new. trace w' = trace w2 @ new"
    using that t2 by auto
  show ?thesis
  proof (cases "arg_data a \<noteq> None \<and> arg_data a \<noteq> Some []")
    case True
    with assms Inr have "w' = w2"
      by (auto simp: sendSmuggledRequest_def w2_def Let_def)
    then show ?thesis
      by (intro fin) simp
  next
    case False
    show ?thesis
    proof (cases "getData dec w2")
      case None
      with assms Inr False show ?thesis
        by (auto simp: sendSmuggledRequest_def w2_def Let_def)
    next
      case (Some y)
      obtain r3 w3 where y: "y = (r3, w3)" by (cases y)
      from Some y have "io_only silent_io w2 w3"
        by (intro getData_io [of dec w2 r3]) simp
      from io_only_fields(5) [OF this] obtain n3 where n3: "trace w3 = trace w2 @ n3"
        by blast
      show ?thesis
      proof (cases r3)
        case (Inl e)
        with assms Inr False Some y have "w' = w3"
          by (auto simp: sendSmuggledRequest_def w2_def Let_def)
        with n3 show ?thesis
          by (intro fin) simp
      next
        case evs: (Inr events)
        with assms Inr False Some y have "handle_events events (arg_verbose a) w3 = (r, w')"
          by (auto simp: sendSmuggledRequest_def w2_def Let_def)
        from io_only_fields(5) [OF prints_only_io [OF handle_events_prints [OF this]]]
        obtain n4 where "trace w' = trace w3 @ n4"
          by blast
        with n3 show ?thesis
          by (intro fin) simp
      qed
    qed
  qed
qed

lemma sendSmuggledRequest_agree:
  assumes agree: "\<And>t d. list_ex is_Feed t \<Longrightarrow> dec t d = dec' t d"
      and feed: "list_ex is_Feed (trace w)"
  shows "sendSmuggledRequest dec hs a w = sendSmuggledRequest dec' hs a w"
proof (cases "get_next_available_stream_id w")
  case (Inl e)
  then show ?thesis
    by (simp add: sendSmuggledRequest_def)
next
  case (Inr sid)
  have "getData dec (sendall_data_to_send (send_headers sid hs b w))
          = getData dec' (sendall_data_to_send (send_headers sid hs b w))" for b
  proof -
    from feed have "list_ex is_Feed (trace (sendall_data_to_send (send_headers sid hs b w)))"
      by (simp add: sendall_data_to_send_def send_headers_def)
    with agree show ?thesis
      by (rule getData_agree)
  qed
  with Inr show ?thesis
    by (simp add: sendSmuggledRequest_def Let_def)
qed

lemma main_requests_agree:
  assumes agree: "\<And>t d. list_ex is_Feed t \<Longrightarrow> dec t d = dec' t d"
      and feed: "list_ex is_Feed (trace w)"
  shows "main_requests dec a us w = main_requests dec' a us w"
  using feed
proof (induction us arbitrary: w)
  case Nil
  show ?case by simp
next
  case (Cons u us)
  define w0 where "w0 = emit (Print (''[INFO] Requesting - '' @ request_path u)) w"
  let ?hs = "smuggled_request_headers_of a u (request_path u)"
  from Cons.prems have f0: "list_ex is_Feed (trace w0)"
    by (simp add: w0_def)
  with agree have call: "sendSmuggledRequest dec ?hs a w0 = sendSmuggledRequest dec' ?hs a w0"
    by (rule sendSmuggledRequest_agree)
  show ?case
  proof (cases "sendSmuggledRequest dec' ?hs a w0")
    case None
    with call show ?thesis
      by (simp add: w0_def)
  next
    case (Some y)
    obtain r1 w1 where y: "y = (r1, w1)" by (cases y)
    from sendSmuggledRequest_extends [of dec' ?hs a w0 r1 w1] Some y f0
    have "list_ex is_Feed (trace w1)"
      by auto
    then have "main_requests dec a us w1 = main_requests dec' a us w1"
      by (rule Cons.IH)
    with call Some y show ?thesis
      by (cases r1) (simp_all add: w0_def)
  qed
qed

lemma main_upgraded_agree:
  assumes agree: "\<And>t d. list_ex is_Feed t \<Longrightarrow> dec t d = dec' t d"
      and accept: "\<And>t d. \<not> list_ex is_Feed t \<Longrightarrow> (dec t d = None) = (dec' t d = None)"
  shows "main_upgraded dec a extra_data w = main_upgraded dec' a extra_data w"
proof (cases "arg_test a \<or> extra_data = None")
  case True
  then show ?thesis
    by (auto simp: main_upgraded_def Let_def)
next
  case False
  then obtain extra where ex: "extra_data = Some extra" and nt: "\<not> arg_test a"
    by auto
  define w2 where "w2 = sendall_data_to_send
                     (emit (Print ''[INFO] h2c stream established successfully.'') w)"
  define w3 where "w3 = emit (Feed extra) w2"
  have f3: "list_ex is_Feed (trace w3)"
    by (simp add: w3_def is_Feed_def)
  have none: "(dec (trace w2) extra = None) = (dec' (trace w2) extra = None)"
    using agree [of "trace w2" extra] accept [of "trace w2" extra] by (cases "list_ex is_Feed (trace w2)") simp_all
  define rest where "rest = (\<lambda>d0 :: decoder.
      case getData d0 w3 of
        None \<Rightarrow> None
      | Some (Inl e, w4) \<Rightarrow> Some (Inl e, w4)
      | Some (Inr events, w4) \<Rightarrow>
          (case handle_events events (arg_verbose a) (sendall_data_to_send w4) of
             (Inl e, w5) \<Rightarrow> Some (Inl e, w5)
           | (Inr _, w5) \<Rightarrow>
               (case arg_urls a of
                  Inl e \<Rightarrow> Some (Inl e, w5)
                | Inr us \<Rightarrow>
                    (case main_requests d0 a us w5 of
                       None \<Rightarrow> None
                     | Some (Inl e, w6) \<Rightarrow> Some (Inl e, w6)
                     | Some (Inr _, w6) \<Rightarrow>
                         Some (Inr (),
                               emit Close (emit Shutdown
                                 (sendall_data_to_send (close_connection w6))))))))"
  have unfold: "main_upgraded d0 a extra_data w =
      (case d0 (trace w2) extra of
         None \<Rightarrow> Some (Inl ProtocolError, w3)
       | Some events0 \<Rightarrow> rest d0)" for d0
    using ex nt
    by (simp add: main_upgraded_def rest_def w3_def w2_def receive_data_def
          split: option.splits)
  have g: "getData dec w3 = getData dec' w3"
    using agree f3 by (rule getData_agree)
  have "rest dec = rest dec'"
  proof (cases "getData dec' w3")
    case None
    with g show ?thesis
      by (simp add: rest_def)
  next
    case (Some y4)
    obtain r4 w4 where y4: "y4 = (r4, w4)" by (cases y4)
    from io_only_fields(5) [OF getData_io [of dec' w3 r4 w4]] Some y4 obtain n4 where
      n4: "trace w4 = trace w3 @ n4"
      by auto
    show ?thesis
    proof (cases r4)
      case (Inl e)
      with g Some y4 show ?thesis
        by (simp add: rest_def)
    next
      case evs: (Inr events)
      obtain r5 w5 where
        h: "handle_events events (arg_verbose a) (sendall_data_to_send w4) = (r5, w5)"
        by (cases "handle_events events (arg_verbose a) (sendall_data_to_send w4)")
      from io_only_fields(5) [OF prints_only_io [OF handle_events_prints [OF h]]]
      obtain n5 where "trace w5 = trace (sendall_data_to_send w4) @ n5"
        by blast
      with n4 f3 have f5: "list_ex is_Feed (trace w5)"
        by (simp add: sendall_data_to_send_def)
      have "main_requests dec a us w5 = main_requests dec' a us w5" for us
        using agree f5 by (rule main_requests_agree)
      with g Some y4 evs h show ?thesis
        by (simp add: rest_def split: sum.splits)
    qed
  qed
  with none show ?thesis
    unfolding unfold by (auto split: option.splits)
qed

text \<open>
  C10: what the decoder makes of the bytes it is given first has no effect on \<open>main\<close>.
  Take two decoders that return the same events on every call made after some bytes
  have been given to the decoder, and that accept the same bytes before. On the
  first bytes, which are the leftover bytes of the upgrade response, they may return
  different events; \<open>main\<close> still ends in the same way, in the same state, with the
  same lines printed. So the events decoded from the leftover bytes reach no
  handler and no output.
\<close>

theorem leftover_events_discarded:
  assumes "\<And>t d. list_ex is_Feed t \<Longrightarrow> dec t d = dec' t d"
      and "\<And>t d. \<not> list_ex is_Feed t \<Longrightarrow> (dec t d = None) = (dec' t d = None)"
  shows "main dec UPGRADE_ONLY a w = main dec' UPGRADE_ONLY a w"
proof -
  have "main_upgraded dec a extra_data v = main_upgraded dec' a extra_data v"
    for extra_data v
    using assms by (rule main_upgraded_agree)
  then have eq: "main_upgraded dec a = main_upgraded dec' a"
    by (intro ext)
  show ?thesis
    unfolding main_def eq ..
qed

text \<open>
  C10 on a peer that sends a whole response, headers, data and end of stream, with the
  upgrade response, falls silent, and sends the same response again after the
  request: the run is the same with a decoder that finds no event in the first bytes,
  and of the two responses only the second is printed.
\<close>

theorem leftover_events_discarded_witness:
  "main fake_decoder False (example_args False [target_url ''/admin''])
     (peer [Chunk (switching_protocols @ ''HDE''), TimesOut, Chunk ''HDE''] Silent)
   = main deaf_start_decoder False (example_args False [target_url ''/admin''])
       (peer [Chunk (switching_protocols @ ''HDE''), TimesOut, Chunk ''HDE''] Silent)
   \<and> map_option (\<lambda>y. (fst y, filter is_print (trace (snd y))))
       (main fake_decoder False (example_args False [target_url ''/admin''])
          (peer [Chunk (switching_protocols @ ''HDE''), TimesOut, Chunk ''HDE''] Silent))
     = Some (Inr (), [Print ''[INFO] h2c stream established successfully.'',
                      Print ''[INFO] Requesting - /admin'',
                      Print '':status: 200'', Print [], PrintData ''hello'', Print []])"
proof -
  have a: "list_ex is_Feed t \<Longrightarrow> fake_decoder t d = deaf_start_decoder t d" for t d
    by (simp add: fake_decoder_def deaf_start_decoder_def)
  have b: "\<not> list_ex is_Feed t \<Longrightarrow> (fake_decoder t d = None) = (deaf_start_decoder t d = None)"
    for t d
    by (simp add: fake_decoder_def deaf_start_decoder_def split: option.splits)
  have c: "map_option (\<lambda>y. (fst y, filter is_print (trace (snd y))))
       (main fake_decoder False (example_args False [target_url ''/admin''])
          (peer [Chunk (switching_protocols @ ''HDE''), TimesOut, Chunk ''HDE''] Silent))
     = Some (Inr (), [Print ''[INFO] h2c stream established successfully.'',
                      Print ''[INFO] Requesting - /admin'',
                      Print '':status: 200'', Print [], PrintData ''hello'', Print []])"
    by code_simp
  from leftover_events_discarded [of fake_decoder deaf_start_decoder, OF a b] c
  show ?thesis
    by simp
qed

subsection \<open>The event-drain loop on a given sequence of chunks (C4)\<close>

lemma getData_loop_timeout:
  assumes "incoming w = [] \<and> peer_end w = Silent \<or> (\<exists>s'. incoming w = TimesOut # s')"
  shows "getData_loop dec events w
           = Some (Inr events, w\<lparr>incoming := tl (incoming w),
                                   trace := trace w @ [Recv (Inl SocketTimeout)]\<rparr>)"
proof -
  from assms have "recv w = (Inl SocketTimeout,
      w\<lparr>incoming := tl (incoming w), trace := trace w @ [Recv (Inl SocketTimeout)]\<rparr>)"
    by (auto simp: recv_def emit_def)
  then show ?thesis
    by (subst getData_loop.simps) simp
qed

lemma getData_loop_chunks:
  assumes "incoming w = map Chunk chunks @ s"
      and "accepted dec (trace w) chunks"
      and "\<forall>k. 0 < k \<and> k < length chunks
             \<longrightarrow> \<not> ends_with_StreamEnded (events @ decoded dec (trace w) (feeds (take k chunks)))"
      and "chunks \<noteq> []"
  shows "getData_loop dec events w =
           (if ends_with_StreamEnded (events @ decoded dec (trace w) (feeds chunks))
            then Some (Inr (events @ decoded dec (trace w) (feeds chunks)),
                       w\<lparr>incoming := s, trace := trace w @ feeds chunks\<rparr>)
            else getData_loop dec (events @ decoded dec (trace w) (feeds chunks))
                   (w\<lparr>incoming := s, trace := trace w @ feeds chunks\<rparr>))"
  using assms
proof (induction chunks arbitrary: events w)
  case Nil
  then show ?case by simp
next
  case (Cons d ds)
  define w1 where "w1 = w\<lparr>incoming := map Chunk ds @ s, trace := trace w @ [Recv (Inr d)]\<rparr>"
  define w2 where
    "w2 = w\<lparr>incoming := map Chunk ds @ s, trace := trace w @ [Recv (Inr d), Feed d]\<rparr>"
  from Cons.prems(1) have r: "recv w = (Inr d, w1)"
    by (simp add: recv_def emit_def w1_def)
  from Cons.prems(2) obtain e1 where e1: "dec (trace w @ [Recv (Inr d)]) d = Some e1"
    and acc: "accepted dec (trace w @ [Recv (Inr d), Feed d]) ds"
    by auto
  from e1 have rd: "receive_data dec d w1 = (Inr e1, w2)"
    by (simp add: receive_data_def emit_def w1_def w2_def)
  have dec_all: "decoded dec (trace w) (feeds (d # ds'))
                   = e1 @ decoded dec (trace w @ [Recv (Inr d), Feed d]) (feeds ds')" for ds'
    using e1 by simp
  have step: "getData_loop dec events w =
                (if ends_with_StreamEnded (events @ e1) then Some (Inr (events @ e1), w2)
                 else getData_loop dec (events @ e1) w2)"
    by (subst getData_loop.simps) (simp add: r rd)
  show ?case
  proof (cases ds)
    case Nil
    with step dec_all [of "[]"] show ?thesis
      by (simp add: w2_def)
  next
    case (Cons d' ds'')
    then have ne: "ds \<noteq> []" by simp
    from Cons.prems(3) [rule_format, of 1] Cons dec_all [of "[]"]
    have n1: "\<not> ends_with_StreamEnded (events @ e1)"
      by simp
    have i2: "incoming w2 = map Chunk ds @ s" and t2: "trace w2 = trace w @ [Recv (Inr d), Feed d]"
      by (simp_all add: w2_def)
    have p3: "\<forall>k. 0 < k \<and> k < length ds
                \<longrightarrow> \<not> ends_with_StreamEnded
                      ((events @ e1) @ decoded dec (trace w2) (feeds (take k ds)))"
    proof (intro allI impI)
      fix k
      assume k: "0 < k \<and> k < length ds"
      with Cons.prems(3) [rule_format, of "Suc k"] dec_all [of "take k ds"]
      show "\<not> ends_with_StreamEnded
              ((events @ e1) @ decoded dec (trace w2) (feeds (take k ds)))"
        by (simp add: t2)
    qed
    from acc have a2: "accepted dec (trace w2) ds"
      by (simp add: t2)
    have "getData_loop dec (events @ e1) w2 =
           (if ends_with_StreamEnded ((events @ e1) @ decoded dec (trace w2) (feeds ds))
            then Some (Inr ((events @ e1) @ decoded dec (trace w2) (feeds ds)),
                       w2\<lparr>incoming := s, trace := trace w2 @ feeds ds\<rparr>)
            else getData_loop dec ((events @ e1) @ decoded dec (trace w2) (feeds ds))
                   (w2\<lparr>incoming := s, trace := trace w2 @ feeds ds\<rparr>))"
      using i2 a2 p3 ne by (rule Cons.IH)
    moreover have "w2\<lparr>incoming := s, trace := trace w2 @ feeds ds\<rparr>
                     = w\<lparr>incoming := s, trace := trace w @ feeds (d # ds)\<rparr>"
      by (simp add: w2_def)
    ultimately show ?thesis
      using step n1 dec_all [of ds] by (simp add: t2)
  qed
qed

text \<open>
  The loop on the chunks \<open>chunks\<close> followed by whatever \<open>s\<close> holds: what it returns when
  the events end with \<open>StreamEnded\<close> at the last chunk and not before, and what it
  returns when they do not and the next read times out.
\<close>

lemma getData_on_chunks:
  assumes "incoming w = map Chunk chunks @ s"
      and "accepted dec (trace w) chunks"
      and "\<forall>k<length chunks.
             \<not> ends_with_StreamEnded (decoded dec (trace w) (feeds (take k chunks)))"
  shows "(ends_with_StreamEnded (decoded dec (trace w) (feeds chunks)) \<longrightarrow>
            getData dec w = Some (Inr (decoded dec (trace w) (feeds chunks)),
                                  w\<lparr>incoming := s, trace := trace w @ feeds chunks\<rparr>))
       \<and> (\<not> ends_with_StreamEnded (decoded dec (trace w) (feeds chunks))
            \<and> (s = [] \<and> peer_end w = Silent \<or> (\<exists>s'. s = TimesOut # s')) \<longrightarrow>
            getData dec w = Some (Inr (decoded dec (trace w) (feeds chunks)),
                                  w\<lparr>incoming := tl s,
                                    trace := trace w @ feeds chunks
                                             @ [Recv (Inl SocketTimeout)]\<rparr>))"
proof (cases "chunks = []")
  case True
  with assms(1) show ?thesis
    using getData_loop_timeout [of w dec "[]"]
    by (auto simp: getData_def ends_with_StreamEnded_def)
next
  case False
  let ?evs = "decoded dec (trace w) (feeds chunks)"
  let ?w' = "w\<lparr>incoming := s, trace := trace w @ feeds chunks\<rparr>"
  from assms(3) have
    "\<forall>k. 0 < k \<and> k < length chunks
       \<longrightarrow> \<not> ends_with_StreamEnded ([] @ decoded dec (trace w) (feeds (take k chunks)))"
    by simp
  from getData_loop_chunks [OF assms(1,2) this False]
  have run: "getData dec w =
               (if ends_with_StreamEnded ?evs then Some (Inr ?evs, ?w')
                else getData_loop dec ?evs ?w')"
    by (simp add: getData_def)
  show ?thesis
  proof (intro conjI impI)
    assume "ends_with_StreamEnded ?evs"
    with run show "getData dec w = Some (Inr ?evs, ?w')"
      by simp
  next
    assume a: "\<not> ends_with_StreamEnded ?evs
                 \<and> (s = [] \<and> peer_end w = Silent \<or> (\<exists>s'. s = TimesOut # s'))"
    then have "incoming ?w' = [] \<and> peer_end ?w' = Silent \<or> (\<exists>s'. incoming ?w' = TimesOut # s')"
      by auto
    from getData_loop_timeout [OF this, of dec ?evs] a run
    show "getData dec w = Some (Inr ?evs,
            w\<lparr>incoming := tl s, trace := trace w @ feeds chunks @ [Recv (Inl SocketTimeout)]\<rparr>)"
      by simp
  qed
qed

text \<open>
  C4: let the peer deliver the chunks \<open>chunks\<close>, which the decoder accepts, followed by
  whatever \<open>s\<close> holds, and let the events decoded from no shorter sequence of them end
  with \<open>StreamEnded\<close>. If the events decoded from all of \<open>chunks\<close> end with
  \<open>StreamEnded\<close>, \<open>getData\<close> returns them right after the decoder call on the last
  chunk: it has read and decoded each chunk, nothing of \<open>s\<close> has been read. If they do
  not and the next read times out, \<open>getData\<close> returns them after that read. And
  whatever the peer does, events that do not end with \<open>StreamEnded\<close> are returned only
  after a read that timed out.
\<close>

theorem getData_returns_at_StreamEnded:
  assumes "incoming w = map Chunk chunks @ s"
      and "accepted dec (trace w) chunks"
      and "\<forall>k<length chunks.
             \<not> ends_with_StreamEnded (decoded dec (trace w) (feeds (take k chunks)))"
  shows "(ends_with_StreamEnded (decoded dec (trace w) (feeds chunks)) \<longrightarrow>
            getData dec w = Some (Inr (decoded dec (trace w) (feeds chunks)),
                                  w\<lparr>incoming := s, trace := trace w @ feeds chunks\<rparr>))
       \<and> (\<not> ends_with_StreamEnded (decoded dec (trace w) (feeds chunks))
            \<and> (s = [] \<and> peer_end w = Silent \<or> (\<exists>s'. s = TimesOut # s')) \<longrightarrow>
            getData dec w = Some (Inr (decoded dec (trace w) (feeds chunks)),
                                  w\<lparr>incoming := tl s,
                                    trace := trace w @ feeds chunks
                                             @ [Recv (Inl SocketTimeout)]\<rparr>))
       \<and> (\<forall>events w'. getData dec w = Some (Inr events, w')
              \<and> \<not> ends_with_StreamEnded events \<longrightarrow>
              (\<exists>p. trace w' = trace w @ p @ [Recv (Inl SocketTimeout)]))"
proof -
  have "\<exists>p. trace w' = trace w @ p @ [Recv (Inl SocketTimeout)]"
    if "getData dec w = Some (Inr events, w')" and "\<not> ends_with_StreamEnded events"
    for events w'
  proof -
    from getData_stops_at_StreamEnded [of w dec] that(1) obtain new where
      "trace w' = trace w @ new"
      "if ends_with_StreamEnded events then (\<exists>p d. new = p @ [Recv (Inr d), Feed d])
       else (\<exists>p. new = p @ [Recv (Inl SocketTimeout)])"
      by blast
    with that(2) show ?thesis
      by auto
  qed
  with getData_on_chunks [OF assms] show ?thesis
    by blast
qed

text \<open>
  C4 on a peer whose second chunk ends the stream, where the third chunk stays unread,
  and on a peer that sends a response without an end of stream and falls silent.
\<close>

theorem getData_returns_at_StreamEnded_witness:
  "getData fake_decoder (peer [Chunk ''HD'', Chunk ''E'', Chunk ''R''] Silent)
     = Some (Inr [ResponseReceived 1 [('':status'', ''200'')], DataReceived 1 ''hello'',
                  StreamEnded 1],
             (peer [Chunk ''R''] Silent)
               \<lparr>trace := [Recv (Inr ''HD''), Feed ''HD'', Recv (Inr ''E''), Feed ''E'']\<rparr>)
   \<and> getData fake_decoder (peer [Chunk ''HD''] Silent)
     = Some (Inr [ResponseReceived 1 [('':status'', ''200'')], DataReceived 1 ''hello''],
             (peer [] Silent)
               \<lparr>trace := [Recv (Inr ''HD''), Feed ''HD'', Recv (Inl SocketTimeout)]\<rparr>)"
proof -
  have a: "accepted fake_decoder [] [''HD'', ''E'']" "accepted fake_decoder [] [''HD'']"
    by (simp_all add: fake_decoder_def)
  have d: "decoded fake_decoder [] (feeds [''HD'', ''E''])
             = [ResponseReceived 1 [('':status'', ''200'')], DataReceived 1 ''hello'',
                StreamEnded 1]"
    "decoded fake_decoder [] (feeds [''HD''])
             = [ResponseReceived 1 [('':status'', ''200'')], DataReceived 1 ''hello'']"
    by (simp_all add: fake_decoder_def)
  have p1: "\<forall>k<length [''HD'', ''E''].
              \<not> ends_with_StreamEnded (decoded fake_decoder [] (feeds (take k [''HD'', ''E''])))"
  proof (intro allI impI)
    fix k :: nat
    assume "k < length [''HD'', ''E'']"
    then have "k = 0 \<or> k = 1" by auto
    then show "\<not> ends_with_StreamEnded (decoded fake_decoder [] (feeds (take k [''HD'', ''E''])))"
      by (auto simp: fake_decoder_def ends_with_StreamEnded_def is_StreamEnded_def)
  qed
  have p2: "\<forall>k<length [''HD''].
              \<not> ends_with_StreamEnded (decoded fake_decoder [] (feeds (take k [''HD''])))"
    by (simp add: ends_with_StreamEnded_def)
  have e1: "ends_with_StreamEnded (decoded fake_decoder [] (feeds [''HD'', ''E'']))"
    unfolding d by (simp add: ends_with_StreamEnded_def is_StreamEnded_def)
  have e2: "\<not> ends_with_StreamEnded (decoded fake_decoder [] (feeds [''HD'']))"
    unfolding d by (simp add: ends_with_StreamEnded_def is_StreamEnded_def)
  let ?w1 = "peer [Chunk ''HD'', Chunk ''E'', Chunk ''R''] Silent"
  let ?w2 = "peer [Chunk ''HD''] Silent"
  have i1: "incoming ?w1 = map Chunk [''HD'', ''E''] @ [Chunk ''R'']"
    and i2: "incoming ?w2 = map Chunk [''HD''] @ []"
    and t1: "trace ?w1 = []" and t2: "trace ?w2 = []" and s2: "peer_end ?w2 = Silent"
    by (simp_all add: peer_def)
  from getData_returns_at_StreamEnded [of ?w1 _ _ fake_decoder, unfolded t1, OF i1 a(1) p1] e1
  have "getData fake_decoder ?w1
          = Some (Inr (decoded fake_decoder [] (feeds [''HD'', ''E''])),
                  ?w1\<lparr>incoming := [Chunk ''R''], trace := [] @ feeds [''HD'', ''E'']\<rparr>)"
    by blast
  then have r1: "getData fake_decoder ?w1
          = Some (Inr [ResponseReceived 1 [('':status'', ''200'')], DataReceived 1 ''hello'',
                       StreamEnded 1],
                  ?w1\<lparr>incoming := [Chunk ''R''], trace := [] @ feeds [''HD'', ''E'']\<rparr>)"
    by (simp only: d)
  from getData_returns_at_StreamEnded [of ?w2 _ _ fake_decoder, unfolded t2, OF i2 a(2) p2] e2 s2
  have "getData fake_decoder ?w2
          = Some (Inr (decoded fake_decoder [] (feeds [''HD''])),
                  ?w2\<lparr>incoming := tl [],
                        trace := [] @ feeds [''HD''] @ [Recv (Inl SocketTimeout)]\<rparr>)"
    by blast
  then have r2: "getData fake_decoder ?w2
          = Some (Inr [ResponseReceived 1 [('':status'', ''200'')], DataReceived 1 ''hello''],
                  ?w2\<lparr>incoming := tl [],
                        trace := [] @ feeds [''HD''] @ [Recv (Inl SocketTimeout)]\<rparr>)"
    by (simp only: d)
  from r1 r2 show ?thesis
    by (simp add: peer_def)
qed

subsection \<open>Runs against a peer that stays connected\<close>




subsection \<open>The upgrade response on a given sequence of chunks\<close>







subsection \<open>The upgrade response of a given peer (C1)\<close>



end
